theory Spec2Isabelle
  imports Complex_Main "HOL-Library.Multiset" "HOL-Library.Log_Nat"
begin

section \<open>Numbers, errors and time\<close>

text \<open>
  The program is \<^verbatim>\<open>src/app.py\<close>. A float64 value is a real number. The draws of the
  random library are arbitrary values of their ranges, and the columns computed from
  them (amounts, risk scores, sums, the mean, the overall rate) are taken with the
  exact operations on the reals. Two columns are computed from whole numbers alone and
  then cut to a whole number of clock ticks or to two decimals, where the last bit of a
  float64 decides the outcome: the timestamps and the daily fraud rate. For these every
  float64 operation is written out with its rounding, \<open>float64\<close> below.

  The only non-finite values the program can produce come from a division by zero,
  which numpy answers with \<open>nan\<close> or \<open>inf\<close> (and a warning) instead of raising. Those
  results are values of \<open>npfloat\<close>.
\<close>

datatype npfloat = Fin real | PInf | NInf | NaN

datatype error = ValueError

text \<open>\<^verbatim>\<open>a / b\<close> on numpy scalars and columns: true division, never an exception.\<close>

definition np_true_divide :: "real \<Rightarrow> real \<Rightarrow> npfloat" where
  "np_true_divide a b =
     (if b \<noteq> 0 then Fin (a / b)
      else if a = 0 then NaN
      else if 0 < a then PInf else NInf)"

text \<open>\<^verbatim>\<open>x * c\<close> for a finite float \<open>c\<close>.\<close>

fun np_multiply :: "npfloat \<Rightarrow> real \<Rightarrow> npfloat" where
  "np_multiply (Fin x) c = Fin (x * c)"
| "np_multiply NaN c = NaN"
| "np_multiply PInf c = (if 0 < c then PInf else if c < 0 then NInf else NaN)"
| "np_multiply NInf c = (if 0 < c then NInf else if c < 0 then PInf else NaN)"

text \<open>
  \<^verbatim>\<open>numpy.rint\<close>: round to the nearest integer, halves to the even neighbour.
  \<^verbatim>\<open>.round(k)\<close> is \<^verbatim>\<open>rint(x * 10**k) / 10**k\<close>; \<open>round_np\<close> takes the product and the
  quotient exact and is the rounding of the drawn columns, \<open>round_float64\<close> below rounds
  both to float64 and is the rounding of the daily rate.
\<close>

definition rint :: "real \<Rightarrow> int" where
  "rint x =
     (let f = \<lfloor>x\<rfloor>; d = x - of_int f
      in if d < 1 / 2 then f
         else if 1 / 2 < d then f + 1
         else if even f then f else f + 1)"

definition round_np :: "real \<Rightarrow> nat \<Rightarrow> real" where
  "round_np x k = of_int (rint (x * 10 ^ k)) / 10 ^ k"

text \<open>
  Rounding to float64, to the nearest with ties to the even significand: \<open>binade x\<close> is
  the power of two \<open>p\<close> with \<open>p \<le> x < 2 * p\<close>, a float64 in that range is a whole
  multiple of \<open>p / 2 ^ 52\<close>. The exponent range of the format is left out: no value the
  program computes comes near its ends.
\<close>

definition binade :: "real \<Rightarrow> real" where
  "binade x =
     (if 1 \<le> x then 2 ^ (floorlog 2 (nat \<lfloor>x\<rfloor>) - 1)
      else 1 / 2 ^ floorlog 2 (nat (\<lceil>1 / x\<rceil> - 1)))"

definition float64 :: "real \<Rightarrow> real" where
  "float64 x =
     (if x = 0 then 0
      else let ulp = binade \<bar>x\<bar> / 2 ^ 52
           in of_int (rint (x / ulp)) * ulp)"

text \<open>
  \<^verbatim>\<open>.round(k)\<close> with each of its float64 operations: the product with \<open>10 ^ k\<close>, \<^verbatim>\<open>rint\<close>,
  the quotient by \<open>10 ^ k\<close>.
\<close>

definition round_float64 :: "real \<Rightarrow> nat \<Rightarrow> real" where
  "round_float64 x k = float64 (of_int (rint (float64 (x * 10 ^ k))) / 10 ^ k)"

fun round_npfloat :: "npfloat \<Rightarrow> nat \<Rightarrow> npfloat" where
  "round_npfloat (Fin x) k = Fin (round_float64 x k)"
| "round_npfloat v k = v"

text \<open>
  \<^verbatim>\<open>a / b\<close> on two integer columns and \<^verbatim>\<open>x * c\<close> on a float column, entry by entry, with
  their float64 roundings: the integers are converted to float64 and divided.
\<close>

definition column_true_divide :: "nat \<Rightarrow> nat \<Rightarrow> npfloat" where
  "column_true_divide a b =
     (if b \<noteq> 0 then Fin (float64 (float64 (real a) / float64 (real b)))
      else if a = 0 then NaN else PInf)"

fun column_multiply :: "npfloat \<Rightarrow> real \<Rightarrow> npfloat" where
  "column_multiply (Fin x) c = Fin (float64 (x * c))"
| "column_multiply NaN c = NaN"
| "column_multiply PInf c = (if 0 < c then PInf else if c < 0 then NInf else NaN)"
| "column_multiply NInf c = (if 0 < c then NInf else if c < 0 then PInf else NaN)"

text \<open>
  A \<^verbatim>\<open>datetime\<close> is a count of microseconds since the epoch (the program uses naive
  local time throughout). A pandas timestamp is a count of ticks since the epoch; the
  tick is the nanosecond in pandas before version 3 and the microsecond, for ranges
  built from \<^verbatim>\<open>datetime\<close> values, from version 3 on.
\<close>

type_synonym datetime = int
type_synonym timestamp = int

datatype resolution = Ns | Us

fun per_us :: "resolution \<Rightarrow> int" where
  "per_us Ns = 1000"
| "per_us Us = 1"

definition timedelta_days :: "int \<Rightarrow> int" where
  "timedelta_days d = d * 86400 * 1000000"

definition Timestamp :: "resolution \<Rightarrow> datetime \<Rightarrow> timestamp" where
  "Timestamp res t = t * per_us res"

text \<open>\<^verbatim>\<open>.dt.date\<close>: the calendar day of a timestamp, as the number of days since the epoch.\<close>

definition dt_date :: "resolution \<Rightarrow> timestamp \<Rightarrow> int" where
  "dt_date res t = t div (86400 * 1000000 * per_us res)"

text \<open>
  \<^verbatim>\<open>numpy.linspace(0, stop, num, dtype="int64")\<close>, the call \<^verbatim>\<open>pd.date_range\<close> makes, with
  each of its float64 operations. A negative \<open>num\<close> raises. The samples start as the
  float64 column \<open>0, 1, \<dots>, num - 1\<close> and are multiplied by the step, the float64
  quotient of \<open>stop\<close> by \<open>num - 1\<close>; when that quotient is zero they are divided by
  \<open>num - 1\<close> first and multiplied by \<open>stop\<close> after; with fewer than two samples there
  is no step and they are multiplied by \<open>stop\<close>. Adding the start 0 back changes
  nothing. The last sample is overwritten by \<open>stop\<close>, and the integer dtype takes the
  floor of each.
\<close>

definition linspace :: "int \<Rightarrow> int \<Rightarrow> error + int list" where
  "linspace stop num =
     (if num < 0 then Inl ValueError
      else
        let dv = float64 (of_int (num - 1));
            delta = float64 (of_int stop);
            y = map (\<lambda>i. float64 (real i)) [0..<nat num];
            y = (if 0 < dv
                 then let step = float64 (delta / dv)
                      in if step = 0
                         then map (\<lambda>v. float64 (float64 (v / dv) * delta)) y
                         else map (\<lambda>v. float64 (v * step)) y
                 else map (\<lambda>v. float64 (v * delta)) y);
            y = (if 1 < num then y[nat num - 1 := float64 (of_int stop)] else y)
        in Inr (map floor y))"

text \<open>
  \<^verbatim>\<open>pd.date_range(start=s, end=e, periods=n)\<close> with no frequency: linearly spaced ticks
  from the start, the two ends converted to the resolution of the range.
\<close>

definition date_range ::
  "resolution \<Rightarrow> datetime \<Rightarrow> datetime \<Rightarrow> int \<Rightarrow> error + timestamp list" where
  "date_range res start end periods =
     (case linspace (Timestamp res end - Timestamp res start) periods of
        Inl e \<Rightarrow> Inl e
      | Inr vs \<Rightarrow> Inr (map (\<lambda>v. v + Timestamp res start) vs))"

section \<open>String formatting\<close>

definition digit_char :: "nat \<Rightarrow> char" where
  "digit_char d = ''0123456789'' ! d"

fun str_nat :: "nat \<Rightarrow> string" where
  "str_nat n = (if n < 10 then [digit_char n] else str_nat (n div 10) @ [digit_char (n mod 10)])"

declare str_nat.simps [simp del]

text \<open>\<^verbatim>\<open>f"{i}"\<close> for an integer.\<close>

definition str_int :: "int \<Rightarrow> string" where
  "str_int i = (if i < 0 then CHR ''-'' # str_nat (nat (- i)) else str_nat (nat i))"

text \<open>\<^verbatim>\<open>f"{i:08d}"\<close> for a non-negative integer: zero-padded to at least eight digits.\<close>

definition fmt_08d :: "nat \<Rightarrow> string" where
  "fmt_08d i = (let s = str_nat i in replicate (8 - length s) CHR ''0'' @ s)"

section \<open>The random number library\<close>

text \<open>
  \<^verbatim>\<open>numpy.random\<close> is not part of the repository. It is a parameter of the model: a
  generator state \<open>'g\<close> and the seven operations the program calls, each returning its
  draws and the next state.
\<close>

record 'g np_random =
  seed :: "nat \<Rightarrow> 'g"
  lognormal :: "real \<Rightarrow> real \<Rightarrow> nat \<Rightarrow> 'g \<Rightarrow> real list \<times> 'g"
  choice_p :: "string list \<Rightarrow> nat \<Rightarrow> real list \<Rightarrow> 'g \<Rightarrow> string list \<times> 'g"
  choice :: "string list \<Rightarrow> nat \<Rightarrow> 'g \<Rightarrow> string list \<times> 'g"
  randint :: "int \<Rightarrow> int \<Rightarrow> 'g \<Rightarrow> int \<times> 'g"
  random :: "nat \<Rightarrow> 'g \<Rightarrow> real list \<times> 'g"
  uniform :: "real \<Rightarrow> real \<Rightarrow> nat \<Rightarrow> 'g \<Rightarrow> real list \<times> 'g"

text \<open>
  What the library documents about the values it returns: the requested number of
  draws, log-normal draws positive, choices taken from a non-empty vocabulary, integers
  in \<open>[low, high)\<close>, \<^verbatim>\<open>random\<close> in \<open>[0, 1)\<close>, \<^verbatim>\<open>uniform\<close> between its two bounds.
\<close>

definition np_contract :: "'g np_random \<Rightarrow> bool" where
  "np_contract np \<longleftrightarrow>
     (\<forall>m s n g. length (fst (lognormal np m s n g)) = n
               \<and> (\<forall>x \<in> set (fst (lognormal np m s n g)). 0 < x))
   \<and> (\<forall>vs n p g. vs \<noteq> [] \<longrightarrow> length (fst (choice_p np vs n p g)) = n
               \<and> set (fst (choice_p np vs n p g)) \<subseteq> set vs)
   \<and> (\<forall>vs n g. vs \<noteq> [] \<longrightarrow> length (fst (choice np vs n g)) = n
               \<and> set (fst (choice np vs n g)) \<subseteq> set vs)
   \<and> (\<forall>lo hi g. lo < hi \<longrightarrow> lo \<le> fst (randint np lo hi g) \<and> fst (randint np lo hi g) < hi)
   \<and> (\<forall>n g. length (fst (random np n g)) = n
               \<and> (\<forall>x \<in> set (fst (random np n g)). 0 \<le> x \<and> x < 1))
   \<and> (\<forall>lo hi n g. lo \<le> hi \<longrightarrow> length (fst (uniform np lo hi n g)) = n
               \<and> (\<forall>x \<in> set (fst (uniform np lo hi n g)). lo \<le> x \<and> x \<le> hi))"

section \<open>The transaction synthesizer\<close>

text \<open>
  The frame built by \<^verbatim>\<open>pd.DataFrame({...})\<close> has six columns; the two assignments
  \<^verbatim>\<open>df["is_fraud"] = ...\<close> and \<^verbatim>\<open>df["risk_score"] = ...\<close> extend each row by two more.
\<close>

record row =
  transaction_id :: string
  date :: timestamp
  amount :: real
  merchant :: string
  country :: string
  user_id :: string

record transaction = row +
  is_fraud :: bool
  risk_score :: real

type_synonym ledger = "transaction list"

definition merchants :: "string list" where
  "merchants = [''AMAZON'', ''GOOGLE'', ''APPLE'', ''NETFLIX'', ''UBER'', ''UNKNOWN'', ''PAYPAL'']"

definition merchant_weights :: "real list" where
  "merchant_weights = [0.3, 0.2, 0.15, 0.1, 0.1, 0.05, 0.1]"

definition countries :: "string list" where
  "countries = [''US'', ''UK'', ''DE'', ''FR'', ''IN'', ''BR'']"

text \<open>\<^verbatim>\<open>[f"USER{np.random.randint(1000, 9999)}" for _ in range(n)]\<close>: one call per element.\<close>

fun user_ids :: "'g np_random \<Rightarrow> nat \<Rightarrow> 'g \<Rightarrow> string list \<times> 'g" where
  "user_ids np 0 g = ([], g)"
| "user_ids np (Suc k) g =
     (case randint np 1000 9999 g of (x, g1) \<Rightarrow>
      case user_ids np k g1 of (xs, g2) \<Rightarrow> ((''USER'' @ str_int x) # xs, g2))"

text \<open>\<^verbatim>\<open>Series.between(left, right)\<close>, both ends included.\<close>

definition between :: "real \<Rightarrow> real \<Rightarrow> real \<Rightarrow> bool" where
  "between x left right \<longleftrightarrow> left \<le> x \<and> x \<le> right"

definition isin :: "'a \<Rightarrow> 'a list \<Rightarrow> bool" where
  "isin x vs \<longleftrightarrow> x \<in> set vs"

text \<open>The row-wise reading of the boolean column \<^verbatim>\<open>fraud_conditions\<close>.\<close>

definition fraud_conditions :: "'a row_scheme \<Rightarrow> bool" where
  "fraud_conditions r \<longleftrightarrow>
     amount r > 10000
   \<or> merchant r = ''UNKNOWN''
   \<or> (between (amount r) 5000 10000 \<and> isin (country r) [''IN'', ''BR''])"

text \<open>\<^verbatim>\<open>np.random.random(n) > 0.3\<close>, element by element.\<close>

definition label_draw :: "real \<Rightarrow> bool" where
  "label_draw u \<longleftrightarrow> u > 0.3"

text \<open>\<^verbatim>\<open>np.where(c, a, b)\<close>, element by element.\<close>

definition np_where :: "bool \<Rightarrow> 'a \<Rightarrow> 'a \<Rightarrow> 'a" where
  "np_where c a b = (if c then a else b)"

text \<open>
  Everything the function asks of the generator, in the order of the calls:
  \<^verbatim>\<open>seed(42)\<close>, \<^verbatim>\<open>lognormal\<close>, the two \<^verbatim>\<open>choice\<close>s, \<open>n\<close> times \<^verbatim>\<open>randint\<close>, \<^verbatim>\<open>random\<close>, and
  the two \<^verbatim>\<open>uniform\<close>s (both arguments of \<^verbatim>\<open>np.where\<close> are evaluated in full).
\<close>

record draws =
  d_amount :: "real list"
  d_merchant :: "string list"
  d_country :: "string list"
  d_user_id :: "string list"
  d_label :: "real list"
  d_high :: "real list"
  d_low :: "real list"

definition draw_all :: "'g np_random \<Rightarrow> nat \<Rightarrow> draws" where
  "draw_all np n =
     (let g0 = seed np 42 in
      case lognormal np 4 1.8 n g0 of (a, g1) \<Rightarrow>
      case choice_p np merchants n merchant_weights g1 of (m, g2) \<Rightarrow>
      case choice np countries n g2 of (c, g3) \<Rightarrow>
      case user_ids np n g3 of (u, g4) \<Rightarrow>
      case random np n g4 of (r, g5) \<Rightarrow>
      case uniform np 0.7 1.0 n g5 of (hi, g6) \<Rightarrow>
      case uniform np 0.0 0.6 n g6 of (lo, g7) \<Rightarrow>
        \<lparr>d_amount = a, d_merchant = m, d_country = c, d_user_id = u,
         d_label = r, d_high = hi, d_low = lo\<rparr>)"

text \<open>Row \<open>i\<close> of the six-column frame.\<close>

definition base_row :: "timestamp list \<Rightarrow> draws \<Rightarrow> nat \<Rightarrow> row" where
  "base_row dates d i =
     \<lparr>transaction_id = ''TX'' @ fmt_08d i,
      date = dates ! i,
      amount = round_np (d_amount d ! i) 2,
      merchant = d_merchant d ! i,
      country = d_country d ! i,
      user_id = d_user_id d ! i\<rparr>"

text \<open>Row \<open>i\<close> after the two derived columns are added.\<close>

definition full_row :: "timestamp list \<Rightarrow> draws \<Rightarrow> nat \<Rightarrow> transaction" where
  "full_row dates d i =
     (let r = base_row dates d i;
          f = (fraud_conditions r \<and> label_draw (d_label d ! i));
          s = round_np (np_where f (d_high d ! i) (d_low d ! i)) 3
      in \<lparr>transaction_id = transaction_id r, date = date r, amount = amount r,
          merchant = merchant r, country = country r, user_id = user_id r,
          is_fraud = f, risk_score = s\<rparr>)"

text \<open>
  pandas and numpy raise \<^verbatim>\<open>ValueError\<close> when columns of different lengths are combined;
  with a library that keeps its contract the check always passes.
\<close>

definition same_length :: "nat \<Rightarrow> timestamp list \<Rightarrow> draws \<Rightarrow> bool" where
  "same_length n dates d \<longleftrightarrow>
     length dates = n \<and> length (d_amount d) = n \<and> length (d_merchant d) = n
   \<and> length (d_country d) = n \<and> length (d_user_id d) = n \<and> length (d_label d) = n
   \<and> length (d_high d) = n \<and> length (d_low d) = n"

text \<open>
  \<^verbatim>\<open>generate_fraud_data(n)\<close>. Its environment is explicit: the library \<open>np\<close>, the
  resolution \<open>res\<close> of the installed pandas, the state
  \<open>g\<close> the global generator is in when the function is entered (overwritten by the
  seeding), and the two readings of the clock, \<open>now1\<close> for \<^verbatim>\<open>start\<close> and \<open>now2\<close> for
  \<^verbatim>\<open>end\<close>, in the order the arguments are evaluated.
\<close>

definition generate_fraud_data ::
  "'g np_random \<Rightarrow> resolution \<Rightarrow> 'g \<Rightarrow> datetime \<Rightarrow> datetime \<Rightarrow> int \<Rightarrow> error + ledger"
  where
  "generate_fraud_data np res g now1 now2 n =
     (case date_range res (now1 - timedelta_days 30) now2 n of
        Inl e \<Rightarrow> Inl e
      | Inr dates \<Rightarrow>
          let d = draw_all np (nat n) in
          if same_length (nat n) dates d
          then Inr (map (full_row dates d) [0..<nat n])
          else Inl ValueError)"

section \<open>A scripted generator\<close>

text \<open>
  A test double for the library: its state is a tape of raw numbers, read in order
  (an exhausted tape reads 0), and seeding rewinds to the start of the script.
\<close>

definition tape_take :: "nat \<Rightarrow> nat list \<Rightarrow> nat list \<times> nat list" where
  "tape_take n g = (take n (g @ replicate n 0), drop n g)"

definition unit_of :: "nat \<Rightarrow> real" where
  "unit_of x = real (x mod 1000) / 1000"

definition pick :: "string list \<Rightarrow> nat \<Rightarrow> string" where
  "pick vs x = (if vs = [] then [] else vs ! (x mod length vs))"

definition scripted :: "nat list \<Rightarrow> nat list np_random" where
  "scripted script =
     \<lparr>seed = (\<lambda>s. script),
      lognormal = (\<lambda>m s n g. case tape_take n g of (xs, g') \<Rightarrow>
                     (map (\<lambda>x. real (Suc x) / 1000) xs, g')),
      choice_p = (\<lambda>vs n p g. case tape_take n g of (xs, g') \<Rightarrow>
                     (map (pick vs) xs, g')),
      choice = (\<lambda>vs n g. case tape_take n g of (xs, g') \<Rightarrow>
                     (map (pick vs) xs, g')),
      randint = (\<lambda>lo hi g. case tape_take 1 g of (xs, g') \<Rightarrow>
                     (lo + int (hd xs) mod (hi - lo), g')),
      random = (\<lambda>n g. case tape_take n g of (xs, g') \<Rightarrow> (map unit_of xs, g')),
      uniform = (\<lambda>lo hi n g. case tape_take n g of (xs, g') \<Rightarrow>
                     (map (\<lambda>x. lo + (hi - lo) * unit_of x) xs, g'))\<rparr>"

section \<open>The aggregation engine\<close>

text \<open>The module-level metrics, as functions of the frame \<^verbatim>\<open>df\<close>.\<close>

definition total_amount :: "ledger \<Rightarrow> real" where
  "total_amount df = sum_list (map amount df)"

definition total_transactions :: "ledger \<Rightarrow> nat" where
  "total_transactions df = length df"

text \<open>\<^verbatim>\<open>df["is_fraud"].sum()\<close>: the booleans summed as 0 and 1.\<close>

definition bool_sum :: "bool list \<Rightarrow> nat" where
  "bool_sum bs = sum_list (map (\<lambda>b. if b then 1 else 0) bs)"

definition fraud_transactions :: "ledger \<Rightarrow> nat" where
  "fraud_transactions df = bool_sum (map is_fraud df)"

definition fraud_amount :: "ledger \<Rightarrow> real" where
  "fraud_amount df = sum_list (map amount (filter is_fraud df))"

definition fraud_rate :: "ledger \<Rightarrow> npfloat" where
  "fraud_rate df =
     np_multiply (np_true_divide (real (fraud_transactions df)) (real (total_transactions df))) 100"

text \<open>\<^verbatim>\<open>Series.mean()\<close>: the sum over the count, \<open>nan\<close> for an empty column.\<close>

definition series_mean :: "real list \<Rightarrow> npfloat" where
  "series_mean xs = (if length xs > 0 then Fin (sum_list xs / real (length xs)) else NaN)"

definition mean_amount :: "ledger \<Rightarrow> npfloat" where
  "mean_amount df = series_mean (map amount df)"

text \<open>
  \<^verbatim>\<open>df.groupby(df["date"].dt.date).agg({"transaction_id": "count", "is_fraud": "sum"})\<close>
  followed by \<^verbatim>\<open>reset_index()\<close>: one row per day that occurs, the days in ascending
  order (\<^verbatim>\<open>groupby\<close> sorts its keys).
\<close>

record day_agg =
  g_date :: int
  g_transaction_id :: nat
  g_is_fraud :: nat

record day_row = day_agg +
  g_fraud_rate :: npfloat

definition groupby_date_agg :: "resolution \<Rightarrow> ledger \<Rightarrow> day_agg list" where
  "groupby_date_agg res df =
     map (\<lambda>k. let grp = filter (\<lambda>r. dt_date res (date r) = k) df
              in \<lparr>g_date = k, g_transaction_id = length grp,
                  g_is_fraud = bool_sum (map is_fraud grp)\<rparr>)
         (sort (remdups (map (\<lambda>r. dt_date res (date r)) df)))"

text \<open>
  \<^verbatim>\<open>daily_fraud["fraud_rate"] = (daily_fraud["is_fraud"] / daily_fraud["transaction_id"]
  * 100).round(2)\<close>: three float64 columns in a row, the quotient, the product and the
  rounding.
\<close>

definition daily_fraud :: "resolution \<Rightarrow> ledger \<Rightarrow> day_row list" where
  "daily_fraud res df =
     map (\<lambda>a. \<lparr>g_date = g_date a, g_transaction_id = g_transaction_id a,
               g_is_fraud = g_is_fraud a,
               g_fraud_rate =
                 round_npfloat
                   (column_multiply
                      (column_true_divide (g_is_fraud a) (g_transaction_id a)) 100) 2\<rparr>)
         (groupby_date_agg res df)"

text \<open>
  A selection \<^verbatim>\<open>df[mask]\<close> keeps the index labels of the rows it retains, and so does
  the column taken from it: a series is a list of (label, value).
\<close>

definition boolean_mask :: "('a \<Rightarrow> bool) \<Rightarrow> 'a list \<Rightarrow> (nat \<times> 'a) list" where
  "boolean_mask p df = filter (\<lambda>(i, r). p r) (enumerate 0 df)"

definition column :: "('a \<Rightarrow> 'b) \<Rightarrow> (nat \<times> 'a) list \<Rightarrow> (nat \<times> 'b) list" where
  "column f rows = map (\<lambda>(i, r). (i, f r)) rows"

text \<open>The \<^verbatim>\<open>x\<close> data of the two histogram traces of \<^verbatim>\<open>fig_dist\<close>.\<close>

definition legitimate_x :: "ledger \<Rightarrow> (nat \<times> real) list" where
  "legitimate_x df = column amount (boolean_mask (\<lambda>r. \<not> is_fraud r) df)"

definition fraudulent_x :: "ledger \<Rightarrow> (nat \<times> real) list" where
  "fraudulent_x df = column amount (boolean_mask is_fraud df)"

text \<open>
  \<^verbatim>\<open>df.nlargest(n, col)\<close> with the default \<^verbatim>\<open>keep="first"\<close>: the rows ordered by a stable
  sort on the negated column, cut after \<open>n\<close>; the rows keep their index labels.
\<close>

definition nlargest :: "nat \<Rightarrow> ('a \<Rightarrow> real) \<Rightarrow> 'a list \<Rightarrow> (nat \<times> 'a) list" where
  "nlargest n col df = take n (sort_key (\<lambda>(i, r). - col r) (enumerate 0 df))"

text \<open>\<^verbatim>\<open>to_dict('records')\<close>: every row becomes a dictionary of all its columns.\<close>

datatype cell = Str string | Num real | Flag bool | Time timestamp

definition to_dict :: "transaction \<Rightarrow> (string \<times> cell) list" where
  "to_dict r =
     [(''transaction_id'', Str (transaction_id r)),
      (''date'', Time (date r)),
      (''amount'', Num (amount r)),
      (''merchant'', Str (merchant r)),
      (''country'', Str (country r)),
      (''user_id'', Str (user_id r)),
      (''is_fraud'', Flag (is_fraud r)),
      (''risk_score'', Num (risk_score r))]"

text \<open>The two data arguments of the \<^verbatim>\<open>DataTable\<close>.\<close>

definition table_columns :: "(string \<times> string) list" where
  "table_columns =
     map (\<lambda>i. (i, i))
       [''date'', ''transaction_id'', ''amount'', ''merchant'', ''risk_score'', ''is_fraud'']"

definition table_data :: "ledger \<Rightarrow> (string \<times> cell) list list" where
  "table_data df = map (\<lambda>(i, r). to_dict r) (nlargest 10 risk_score df)"

section \<open>An example run\<close>

definition example_script :: "nat list" where
  "example_script =
     [1234567, 20000000, 6000000,   5, 0, 4,   1, 2, 3,   7, 8, 9,
      900, 100, 950,   850, 0, 999,   0, 500, 599]"

definition example_ledger :: ledger where
  "example_ledger =
     [\<lparr>transaction_id = ''TX00000000'', date = - 2592000000000000,
        amount = 123457 / 100, merchant = ''UNKNOWN'', country = ''UK'',
        user_id = ''USER1007'', is_fraud = True, risk_score = 955 / 1000\<rparr>,
      \<lparr>transaction_id = ''TX00000001'', date = - 1296000000000000,
        amount = 20000, merchant = ''AMAZON'', country = ''DE'',
        user_id = ''USER1008'', is_fraud = False, risk_score = 3 / 10\<rparr>,
      \<lparr>transaction_id = ''TX00000002'', date = 0, amount = 6000,
        merchant = ''UBER'', country = ''FR'', user_id = ''USER1009'',
        is_fraud = False, risk_score = 359 / 1000\<rparr>]"

section \<open>Auxiliary notions for the statements\<close>

text \<open>A float that is an ordinary number, neither \<open>nan\<close> nor infinite.\<close>

definition is_finite :: "npfloat \<Rightarrow> bool" where
  "is_finite v = (case v of Fin x \<Rightarrow> True | _ \<Rightarrow> False)"

text \<open>All fields of a record but its timestamp.\<close>

definition other_fields ::
  "transaction \<Rightarrow> string \<times> real \<times> string \<times> string \<times> string \<times> bool \<times> real" where
  "other_fields r =
     (transaction_id r, amount r, merchant r, country r, user_id r, is_fraud r, risk_score r)"

text \<open>
  The first timestamp of a run and the width of its window, in ticks: the first clock
  reading less 30 days, and from there to the second clock reading.
\<close>

definition window_start :: "resolution \<Rightarrow> datetime \<Rightarrow> timestamp" where
  "window_start res now1 = Timestamp res (now1 - timedelta_days 30)"

definition window_width :: "resolution \<Rightarrow> datetime \<Rightarrow> datetime \<Rightarrow> int" where
  "window_width res now1 now2 = Timestamp res now2 - window_start res now1"

text \<open>
  The steps between consecutive entries of a list, and whether they are all the same.
\<close>

fun steps :: "int list \<Rightarrow> int list" where
  "steps (a # b # ts) = (b - a) # steps (b # ts)"
| "steps ts = []"

definition evenly_spaced :: "int list \<Rightarrow> bool" where
  "evenly_spaced ts \<longleftrightarrow> steps ts = replicate (length (steps ts)) (hd (steps ts))"

text \<open>The names of all columns of the frame, in the order \<^verbatim>\<open>to_dict\<close> lists them.\<close>

definition frame_columns :: "string list" where
  "frame_columns =
     [''transaction_id'', ''date'', ''amount'', ''merchant'', ''country'', ''user_id'',
      ''is_fraud'', ''risk_score'']"

section \<open>Rounding\<close>

lemma rint_lower: "of_int m \<le> x \<Longrightarrow> m \<le> rint x"
proof -
  assume "of_int m \<le> x"
  then have "m \<le> \<lfloor>x\<rfloor>" by (simp add: le_floor_iff)
  then show ?thesis by (simp add: rint_def Let_def)
qed

lemma rint_upper: "x \<le> of_int m \<Longrightarrow> rint x \<le> m"
proof (cases "x - of_int \<lfloor>x\<rfloor> < 1 / 2")
  case True
  assume "x \<le> of_int m"
  then have "\<lfloor>x\<rfloor> \<le> m" by (simp add: floor_le_iff)
  with True show ?thesis by (simp add: rint_def Let_def)
next
  case False
  assume le: "x \<le> of_int m"
  from False have "of_int \<lfloor>x\<rfloor> < x" by linarith
  with le have "of_int \<lfloor>x\<rfloor> < (of_int m :: real)" by linarith
  then have "\<lfloor>x\<rfloor> < m" by simp
  then have "\<lfloor>x\<rfloor> + 1 \<le> m" by simp
  moreover have "rint x \<le> \<lfloor>x\<rfloor> + 1" by (simp add: rint_def Let_def)
  ultimately show ?thesis by linarith
qed

lemma round_np_lower:
  assumes "of_int m / 10 ^ k \<le> x"
  shows "of_int m / 10 ^ k \<le> round_np x k"
proof -
  from assms have "of_int m \<le> x * 10 ^ k" by (simp add: pos_divide_le_eq)
  then have "m \<le> rint (x * 10 ^ k)" by (rule rint_lower)
  then have "(of_int m :: real) \<le> of_int (rint (x * 10 ^ k))" by simp
  then show ?thesis by (simp add: round_np_def divide_right_mono)
qed

lemma round_np_upper:
  assumes "x \<le> of_int m / 10 ^ k"
  shows "round_np x k \<le> of_int m / 10 ^ k"
proof -
  from assms have "x * 10 ^ k \<le> of_int m" by (simp add: pos_le_divide_eq)
  then have "rint (x * 10 ^ k) \<le> m" by (rule rint_upper)
  then have "(of_int (rint (x * 10 ^ k)) :: real) \<le> of_int m" by simp
  then show ?thesis by (simp add: round_np_def divide_right_mono)
qed

lemma round_np_nonneg: "0 \<le> x \<Longrightarrow> 0 \<le> round_np x k"
  using round_np_lower [of 0 k x] by simp

lemma round_np_3_ge_07: "7 / 10 \<le> x \<Longrightarrow> 7 / 10 \<le> round_np x 3"
  using round_np_lower [of 700 3 x] by simp

lemma round_np_3_le_1: "x \<le> 1 \<Longrightarrow> round_np x 3 \<le> 1"
  using round_np_upper [of x 1000 3] by simp

lemma round_np_3_le_06: "x \<le> 6 / 10 \<Longrightarrow> round_np x 3 \<le> 6 / 10"
  using round_np_upper [of x 600 3] by simp

section \<open>Rounding to float64\<close>

text \<open>
  The rounding error of \<open>float64\<close> is at most one part in \<open>2 ^ 53\<close> of the value, and the
  whole numbers below \<open>2 ^ 53\<close> are not rounded at all.
\<close>

lemma rint_err: "\<bar>of_int (rint x) - x\<bar> \<le> 1 / 2"
  unfolding rint_def Let_def by (auto simp: abs_if) linarith+

lemma rint_of_int: "rint (of_int z) = z"
  by (simp add: rint_def)

lemma binade_bounds:
  assumes "0 < x"
  shows "0 < binade x \<and> binade x \<le> x \<and> x < 2 * binade x"
proof (cases "1 \<le> x")
  case True
  let ?n = "nat \<lfloor>x\<rfloor>"
  let ?L = "floorlog 2 ?n"
  from True have n: "0 < ?n" by simp
  from floorlog_bounds [OF n, of 2] have b: "2 ^ (?L - 1) \<le> ?n" "?n < 2 ^ ?L" by simp_all
  from n have "?L \<noteq> 0" by (simp add: floorlog_eq_zero_iff)
  then have L: "2 ^ ?L = 2 * (2::real) ^ (?L - 1)" by (cases ?L) simp_all
  from b(1) have "(2::real) ^ (?L - 1) \<le> real ?n" by (metis of_nat_le_iff of_nat_numeral of_nat_power)
  also from True have "real ?n \<le> x" by simp
  finally have lo: "(2::real) ^ (?L - 1) \<le> x" .
  from b(2) have "Suc ?n \<le> 2 ^ ?L" by (rule Suc_leI)
  then have "real (Suc ?n) \<le> 2 ^ ?L" by (metis of_nat_le_iff of_nat_numeral of_nat_power)
  moreover have "x < real (Suc ?n)"
  proof -
    from True have "real (Suc ?n) = of_int \<lfloor>x\<rfloor> + 1" by simp
    with real_of_int_floor_add_one_gt [of x] show ?thesis by (simp only:)
  qed
  ultimately have hi: "x < 2 ^ ?L" by simp
  from lo hi L True show ?thesis by (simp add: binade_def)
next
  case False
  let ?n = "nat (\<lceil>1 / x\<rceil> - 1)"
  let ?L = "floorlog 2 ?n"
  from False assms have y: "1 < 1 / x" by simp
  then have c: "2 \<le> \<lceil>1 / x\<rceil>" by (simp add: le_ceiling_iff)
  then have n: "0 < ?n" by simp
  from floorlog_bounds [OF n, of 2] have b: "2 ^ (?L - 1) \<le> ?n" "?n < 2 ^ ?L" by simp_all
  from n have "?L \<noteq> 0" by (simp add: floorlog_eq_zero_iff)
  then have L: "2 ^ ?L = 2 * (2::real) ^ (?L - 1)" by (cases ?L) simp_all
  from c have "0 \<le> \<lceil>1 / x\<rceil> - 1" by linarith
  then have "real ?n = of_int (\<lceil>1 / x\<rceil> - 1)" by (rule of_nat_nat)
  then have rn: "real ?n = of_int \<lceil>1 / x\<rceil> - 1" by simp
  from b(1) have "(2::real) ^ (?L - 1) \<le> real ?n" by (metis of_nat_le_iff of_nat_numeral of_nat_power)
  also have "real ?n < 1 / x" unfolding rn by linarith
  finally have lo: "(2::real) ^ (?L - 1) < 1 / x" .
  from b(2) have "Suc ?n \<le> 2 ^ ?L" by (rule Suc_leI)
  then have "real (Suc ?n) \<le> 2 ^ ?L" by (metis of_nat_le_iff of_nat_numeral of_nat_power)
  moreover have "1 / x \<le> real (Suc ?n)"
    using rn le_of_int_ceiling [of "1 / x"] by simp
  ultimately have hi: "1 / x \<le> 2 ^ ?L" by simp
  have p: "(0::real) < 2 ^ ?L" "(0::real) < 2 ^ (?L - 1)" by simp_all
  from hi assms p have 1: "1 / 2 ^ ?L \<le> x"
    by (simp add: field_simps)
  from lo assms p have "x < 1 / 2 ^ (?L - 1)"
    by (simp add: field_simps)
  also have "1 / (2::real) ^ (?L - 1) = 2 * (1 / 2 ^ ?L)" using L by simp
  finally have 2: "x < 2 * (1 / 2 ^ ?L)" .
  from 1 2 False p show ?thesis by (simp add: binade_def)
qed

lemma float64_err: "\<bar>float64 x - x\<bar> \<le> \<bar>x\<bar> / 9007199254740992"
proof (cases "x = 0")
  case True
  then show ?thesis by (simp add: float64_def)
next
  case False
  let ?p = "binade \<bar>x\<bar> / 2 ^ 52"
  from False have ax: "0 < \<bar>x\<bar>" by simp
  from binade_bounds [OF ax] have b: "0 < binade \<bar>x\<bar>" "binade \<bar>x\<bar> \<le> \<bar>x\<bar>" by simp_all
  then have p: "0 < ?p" by simp
  have "float64 x - x = (of_int (rint (x / ?p)) - x / ?p) * ?p"
    using False p by (simp add: float64_def Let_def field_simps)
  then have "\<bar>float64 x - x\<bar> = \<bar>(of_int (rint (x / ?p)) - x / ?p) * ?p\<bar>"
    by (simp only:)
  also have "\<dots> = \<bar>of_int (rint (x / ?p)) - x / ?p\<bar> * ?p"
    using p by (simp only: abs_mult abs_of_pos)
  also have "\<dots> \<le> 1 / 2 * ?p"
    using rint_err [of "x / ?p"] p by (intro mult_right_mono) simp_all
  also have "\<dots> = binade \<bar>x\<bar> / 9007199254740992" by simp
  also have "\<dots> \<le> \<bar>x\<bar> / 9007199254740992" using b(2) by simp
  finally show ?thesis .
qed

lemma float64_nat:
  assumes "n < 9007199254740992"
  shows "float64 (real n) = real n"
proof (cases "n = 0")
  case True
  then show ?thesis by (simp add: float64_def)
next
  case False
  let ?L = "floorlog 2 n"
  from False have n: "0 < n" by simp
  from floorlog_bounds [OF n, of 2] have b: "2 ^ (?L - 1) \<le> n" by simp
  have "(2::nat) ^ 53 = 9007199254740992" by simp
  with b assms have "(2::nat) ^ (?L - 1) < 2 ^ 53" by simp
  then have "?L - 1 < 53" by (simp only: power_strict_increasing_iff)
  then have k: "?L - 1 + (52 - (?L - 1)) = 52" by simp
  let ?j = "52 - (?L - 1)"
  have pw: "(2::real) ^ 52 = 2 ^ (?L - 1) * 2 ^ ?j"
    by (simp only: power_add [symmetric] k)
  have "binade \<bar>real n\<bar> = 2 ^ (?L - 1)"
    using n by (simp add: binade_def)
  then have "binade \<bar>real n\<bar> / 2 ^ 52 = 2 ^ (?L - 1) / (2 ^ (?L - 1) * 2 ^ ?j)"
    by (simp only: pw)
  also have "\<dots> = 1 / 2 ^ ?j" by simp
  finally have ulp: "binade \<bar>real n\<bar> / 2 ^ 52 = 1 / 2 ^ ?j" .
  have q: "real n / (1 / 2 ^ ?j) = of_int (int n * 2 ^ ?j)" by simp
  from False have "real n \<noteq> 0" by simp
  then have "float64 (real n)
      = (let ulp = binade \<bar>real n\<bar> / 2 ^ 52 in of_int (rint (real n / ulp)) * ulp)"
    by (simp only: float64_def if_False)
  then have "float64 (real n) = of_int (rint (real n / (1 / 2 ^ ?j))) * (1 / 2 ^ ?j)"
    by (simp only: Let_def ulp)
  also have "\<dots> = of_int (int n * 2 ^ ?j) * (1 / 2 ^ ?j)"
    by (simp only: q rint_of_int)
  also have "\<dots> = real n" by simp
  finally show ?thesis .
qed

lemma float64_int:
  assumes "0 \<le> z" and "z < 9007199254740992"
  shows "float64 (of_int z) = of_int z"
proof -
  from assms have "nat z < 9007199254740992" by simp
  from float64_nat [OF this] assms(1) show ?thesis by simp
qed

lemma float64_numeral [simp]:
  "numeral w < (9007199254740992::nat) \<Longrightarrow> float64 (numeral w) = numeral w"
  using float64_nat [of "numeral w"] by simp

lemma float64_0 [simp]: "float64 0 = 0"
  by (simp add: float64_def)

lemma float64_1 [simp]: "float64 1 = 1"
  using float64_nat [of 1] by simp

lemma float64_pos:
  assumes "0 < x"
  shows "0 < float64 x"
proof -
  from float64_err [of x] assms have "\<bar>float64 x - x\<bar> \<le> x / 9007199254740992"
    by (simp only: abs_of_pos)
  with assms show ?thesis by linarith
qed

text \<open>
  The value of \<open>float64\<close> at a number whose binade is known: the number is rounded to
  a whole multiple of the spacing of that binade.
\<close>

lemma binade_eq:
  assumes "2 ^ j \<le> x" and "x < 2 * 2 ^ j"
  shows "binade x = 2 ^ j"
proof -
  let ?L = "floorlog 2 (nat \<lfloor>x\<rfloor>)"
  have "(1::real) \<le> 2 ^ j" by simp
  with assms(1) have x1: "1 \<le> x" by linarith
  then have x0: "0 < x" by simp
  from x1 have e: "binade x = 2 ^ (?L - 1)" by (simp add: binade_def)
  from binade_bounds [OF x0] e have b: "2 ^ (?L - 1) \<le> x" "x < 2 * 2 ^ (?L - 1)" by simp_all
  from b(1) assms(2) have "(2::real) ^ (?L - 1) < 2 ^ Suc j" by simp
  then have 1: "?L - 1 < Suc j" by (simp only: power_strict_increasing_iff)
  from assms(1) b(2) have "(2::real) ^ j < 2 ^ Suc (?L - 1)" by simp
  then have 2: "j < Suc (?L - 1)" by (simp only: power_strict_increasing_iff)
  from 1 2 have "?L - 1 = j" by linarith
  with e show ?thesis by simp
qed

lemma float64_eval:
  assumes "2 ^ j \<le> x" and "x < 2 * 2 ^ j" and "j \<le> 52"
  shows "float64 x = real_of_int (rint (x * 2 ^ (52 - j))) / 2 ^ (52 - j)"
proof -
  have "(0::real) < 2 ^ j" by simp
  with assms(1) have x0: "0 < x" by linarith
  then have ax: "\<bar>x\<bar> = x" by simp
  from assms(3) have pw: "(2::real) ^ 52 = 2 ^ j * 2 ^ (52 - j)"
    by (simp add: power_add [symmetric])
  have "binade x / 2 ^ 52 = 2 ^ j / (2 ^ j * 2 ^ (52 - j))"
    by (simp only: binade_eq [OF assms(1,2)] pw)
  also have "\<dots> = 1 / 2 ^ (52 - j)" by simp
  finally have ulp: "binade x / 2 ^ 52 = 1 / 2 ^ (52 - j)" .
  from x0 have "float64 x = (let ulp = binade \<bar>x\<bar> / 2 ^ 52 in of_int (rint (x / ulp)) * ulp)"
    by (simp only: float64_def) simp
  then show ?thesis by (simp only: Let_def ax ulp) simp
qed

section \<open>Structure of a generated ledger\<close>

lemma linspace_neg: "num < 0 \<Longrightarrow> linspace W num = Inl ValueError"
  by (simp add: linspace_def)

lemma linspace_Inr:
  "0 \<le> num \<Longrightarrow> \<exists>vs. linspace W num = Inr vs \<and> length vs = nat num"
  by (simp add: linspace_def Let_def)

lemma date_range_neg: "n < 0 \<Longrightarrow> date_range res s e n = Inl ValueError"
  by (simp add: date_range_def linspace_neg)

lemma date_range_Inr:
  "0 \<le> n \<Longrightarrow> \<exists>ds. date_range res s e n = Inr ds \<and> length ds = nat n"
  using linspace_Inr [of n "Timestamp res e - Timestamp res s"]
  by (auto simp: date_range_def)

lemma date_range_cases:
  "date_range res s e n = Inr ds \<Longrightarrow> 0 \<le> n \<and> length ds = nat n"
  using date_range_neg [of n res s e] date_range_Inr [of n res s e]
  by (cases "n < 0") auto

lemma generate_neg: "n < 0 \<Longrightarrow> generate_fraud_data np res g now1 now2 n = Inl ValueError"
  by (simp add: generate_fraud_data_def date_range_neg)

lemma generate_Inr:
  assumes "generate_fraud_data np res g now1 now2 n = Inr df"
  shows "\<exists>dates. date_range res (now1 - timedelta_days 30) now2 n = Inr dates
           \<and> same_length (nat n) dates (draw_all np (nat n))
           \<and> df = map (full_row dates (draw_all np (nat n))) [0..<nat n]"
  using assms
  by (auto simp: generate_fraud_data_def Let_def split: sum.splits if_splits)

lemma generate_length:
  "generate_fraud_data np res g now1 now2 n = Inr df \<Longrightarrow> 0 \<le> n \<and> length df = nat n"
  using generate_neg [of n np res g now1 now2]
  by (cases "n < 0") (auto dest: generate_Inr)

lemma generate_nth:
  assumes "generate_fraud_data np res g now1 now2 n = Inr df" and "i < length df"
  shows "\<exists>dates. date_range res (now1 - timedelta_days 30) now2 n = Inr dates
           \<and> same_length (nat n) dates (draw_all np (nat n))
           \<and> df ! i = full_row dates (draw_all np (nat n)) i"
proof -
  from generate_Inr [OF assms(1)] obtain dates where
    d: "date_range res (now1 - timedelta_days 30) now2 n = Inr dates"
       "same_length (nat n) dates (draw_all np (nat n))"
       "df = map (full_row dates (draw_all np (nat n))) [0..<nat n]"
    by blast
  from d(3) assms(2) have "df ! i = full_row dates (draw_all np (nat n)) i" by simp
  with d show ?thesis by blast
qed

section \<open>The scripted generator keeps the contract\<close>

lemma scripted_contract: "np_contract (scripted script)"
proof -
  have len: "\<And>n g. length (fst (tape_take n g)) = n"
    by (simp add: tape_take_def)
  have unit: "\<And>x. 0 \<le> unit_of x \<and> unit_of x < 1"
    by (simp add: unit_of_def)
  have pick: "\<And>vs x. vs \<noteq> [] \<Longrightarrow> pick vs x \<in> set vs"
    by (simp add: pick_def)
  have uni: "\<And>lo hi x. lo \<le> hi \<Longrightarrow> lo \<le> lo + (hi - lo) * unit_of x \<and> lo + (hi - lo) * unit_of x \<le> hi"
  proof -
    fix lo hi :: real and x
    assume "lo \<le> hi"
    then have a: "0 \<le> hi - lo" by simp
    from unit [of x] a have "0 \<le> (hi - lo) * unit_of x" by simp
    moreover from unit [of x] a have "(hi - lo) * unit_of x \<le> (hi - lo) * 1"
      by (intro mult_left_mono) auto
    ultimately show "lo \<le> lo + (hi - lo) * unit_of x \<and> lo + (hi - lo) * unit_of x \<le> hi"
      by simp
  qed
  have ri: "\<And>lo hi x. lo < hi \<Longrightarrow> lo \<le> lo + int x mod (hi - lo) \<and> lo + int x mod (hi - lo) < (hi::int)"
  proof -
    fix lo hi :: int and x :: nat
    assume "lo < hi"
    then have "0 < hi - lo" by simp
    then have "0 \<le> int x mod (hi - lo) \<and> int x mod (hi - lo) < hi - lo"
      by simp
    then show "lo \<le> lo + int x mod (hi - lo) \<and> lo + int x mod (hi - lo) < hi" by linarith
  qed
  show ?thesis
    unfolding np_contract_def scripted_def
    using len unit pick uni ri
    by (auto simp: split_beta)
qed

section \<open>Evaluating the example run\<close>

lemma scripted_sel:
  "seed (scripted s) k = s"
  "lognormal (scripted s) m sg n g =
     (map (\<lambda>x. real (Suc x) / 1000) (fst (tape_take n g)), snd (tape_take n g))"
  "choice_p (scripted s) vs n p g = (map (pick vs) (fst (tape_take n g)), snd (tape_take n g))"
  "choice (scripted s) vs n g = (map (pick vs) (fst (tape_take n g)), snd (tape_take n g))"
  "randint (scripted s) lo hi g =
     (lo + int (hd (fst (tape_take 1 g))) mod (hi - lo), snd (tape_take 1 g))"
  "random (scripted s) n g = (map unit_of (fst (tape_take n g)), snd (tape_take n g))"
  "uniform (scripted s) (a::real) b n g =
     (map (\<lambda>x. a + (b - a) * unit_of x) (fst (tape_take n g)), snd (tape_take n g))"
  by (simp_all add: scripted_def split_beta)

lemma tape_take_3: "tape_take 3 (a # b # c # g) = ([a, b, c], g)"
  by (simp add: tape_take_def)

lemma randint_scripted:
  "randint (scripted s) 1000 9999 (a # g) = (1000 + int a mod 8999, g)"
  by (simp add: scripted_sel tape_take_def)

lemma str_1007: "str_int (1000 + int 7 mod 8999) = ''1007''"
  by code_simp

lemma str_1008: "str_int (1000 + int 8 mod 8999) = ''1008''"
  by code_simp

lemma str_1009: "str_int (1000 + int 9 mod 8999) = ''1009''"
  by code_simp

lemma example_user_ids:
  "user_ids (scripted s) 3 (7 # 8 # 9 # g) = ([''USER1007'', ''USER1008'', ''USER1009''], g)"
proof -
  have "user_ids (scripted s) (Suc (Suc (Suc 0))) (7 # 8 # 9 # g)
          = ([''USER'' @ str_int (1000 + int 7 mod 8999), ''USER'' @ str_int (1000 + int 8 mod 8999),
              ''USER'' @ str_int (1000 + int 9 mod 8999)], g)"
    by (simp only: user_ids.simps randint_scripted prod.case)
  then show ?thesis
    by (simp only: str_1007 str_1008 str_1009 numeral_3_eq_3 append.simps)
qed


lemma example_lognormal: "lognormal (scripted s) 4 1.8 3 (1234567 # 20000000 # 6000000 # g) = ([1234568 / 1000, 20000001 / 1000, 6000001 / 1000], g)"
  by (simp add: scripted_sel tape_take_3)

lemma example_merchants: "choice_p (scripted s) merchants 3 merchant_weights (5 # 0 # 4 # g) = ([''UNKNOWN'', ''AMAZON'', ''UBER''], g)"
  by (simp add: scripted_sel tape_take_3 pick_def merchants_def)

lemma example_countries: "choice (scripted s) countries 3 (1 # 2 # 3 # g) = ([''UK'', ''DE'', ''FR''], g)"
  by (simp add: scripted_sel tape_take_3 pick_def countries_def)

lemma example_labels: "random (scripted s) 3 (900 # 100 # 950 # g) = ([9 / 10, 1 / 10, 95 / 100], g)"
  by (simp add: scripted_sel tape_take_3 unit_of_def)

lemma example_high: "uniform (scripted s) 0.7 1.0 3 (850 # 0 # 999 # g) = ([955 / 1000, 7 / 10, 9997 / 10000], g)"
  by (simp add: scripted_sel tape_take_3 unit_of_def)

lemma example_low: "uniform (scripted s) 0.0 0.6 3 (0 # 500 # 599 # g) = ([0, 3 / 10, 3594 / 10000], g)"
  by (simp add: scripted_sel tape_take_3 unit_of_def)


lemma example_draws:
  "draw_all (scripted example_script) 3 =
     \<lparr>d_amount = [1234568 / 1000, 20000001 / 1000, 6000001 / 1000],
      d_merchant = [''UNKNOWN'', ''AMAZON'', ''UBER''],
      d_country = [''UK'', ''DE'', ''FR''],
      d_user_id = [''USER1007'', ''USER1008'', ''USER1009''],
      d_label = [9 / 10, 1 / 10, 95 / 100],
      d_high = [955 / 1000, 7 / 10, 9997 / 10000],
      d_low = [0, 3 / 10, 3594 / 10000]\<rparr>"
  unfolding draw_all_def Let_def scripted_sel(1) example_script_def
  by (simp only: example_lognormal example_merchants example_countries example_user_ids example_labels example_high example_low prod.case)

lemma linspace_30_days_3:
  "linspace 2592000000000000 3 = Inr [0, 1296000000000000, 2592000000000000]"
  by (simp add: linspace_def upt_rec Let_def)

lemma example_dates:
  "date_range Ns (0 - timedelta_days 30) 0 3
     = Inr [- 2592000000000000, - 1296000000000000, 0]"
  by (simp add: date_range_def linspace_30_days_3 Timestamp_def timedelta_days_def)

lemma fmt_08d_0: "fmt_08d 0 = ''00000000''"
  by code_simp

lemma fmt_08d_1: "fmt_08d (Suc 0) = ''00000001''"
  by code_simp

lemma fmt_08d_2: "fmt_08d (Suc (Suc 0)) = ''00000002''"
  by code_simp

lemma upt_3: "[0..<3] = [0, Suc 0, Suc (Suc 0)]"
  by (simp add: upt_rec numeral_3_eq_3)

lemma example_row0:
  "full_row [- 2592000000000000, - 1296000000000000, 0] (draw_all (scripted example_script) 3) 0
     = example_ledger ! 0"
  by (simp add: example_draws full_row_def base_row_def fmt_08d_0 Let_def
        fraud_conditions_def between_def isin_def label_draw_def np_where_def
        round_np_def rint_def example_ledger_def)

lemma example_row1:
  "full_row [- 2592000000000000, - 1296000000000000, 0] (draw_all (scripted example_script) 3) (Suc 0)
     = example_ledger ! 1"
  by (simp add: example_draws full_row_def base_row_def fmt_08d_1 Let_def
        fraud_conditions_def between_def isin_def label_draw_def np_where_def
        round_np_def rint_def example_ledger_def)

lemma example_row2:
  "full_row [- 2592000000000000, - 1296000000000000, 0] (draw_all (scripted example_script) 3) (Suc (Suc 0))
     = example_ledger ! 2"
  by (simp add: example_draws full_row_def base_row_def fmt_08d_2 Let_def
        fraud_conditions_def between_def isin_def label_draw_def np_where_def
        round_np_def rint_def example_ledger_def)

lemma example_ledger_nths:
  "example_ledger = [example_ledger ! 0, example_ledger ! 1, example_ledger ! 2]"
  by (simp add: example_ledger_def)

lemma example_run:
  "generate_fraud_data (scripted example_script) Ns g 0 0 3 = Inr example_ledger"
proof -
  have "same_length 3 [- 2592000000000000, - 1296000000000000, 0]
          (draw_all (scripted example_script) 3)"
    by (simp add: same_length_def example_draws)
  moreover have "map (full_row [- 2592000000000000, - 1296000000000000, 0]
                   (draw_all (scripted example_script) 3)) [0..<3] = example_ledger"
    unfolding upt_3 list.map example_row0 example_row1 example_row2
    by (rule example_ledger_nths [symmetric])
  moreover have "nat 3 = 3" by simp
  ultimately show ?thesis
    unfolding generate_fraud_data_def example_dates Let_def by simp
qed

section \<open>Consequences of the library contract\<close>

lemma contract_parts:
  assumes "np_contract np"
  shows "\<forall>m s n g. length (fst (lognormal np m s n g)) = n
               \<and> (\<forall>x \<in> set (fst (lognormal np m s n g)). 0 < x)"
    and "\<forall>vs n p g. vs \<noteq> [] \<longrightarrow> length (fst (choice_p np vs n p g)) = n
               \<and> set (fst (choice_p np vs n p g)) \<subseteq> set vs"
    and "\<forall>vs n g. vs \<noteq> [] \<longrightarrow> length (fst (choice np vs n g)) = n
               \<and> set (fst (choice np vs n g)) \<subseteq> set vs"
    and "\<forall>lo hi g. lo < hi \<longrightarrow> lo \<le> fst (randint np lo hi g) \<and> fst (randint np lo hi g) < hi"
    and "\<forall>n g. length (fst (random np n g)) = n
               \<and> (\<forall>x \<in> set (fst (random np n g)). 0 \<le> x \<and> x < 1)"
    and "\<forall>lo hi n g. lo \<le> hi \<longrightarrow> length (fst (uniform np lo hi n g)) = n
               \<and> (\<forall>x \<in> set (fst (uniform np lo hi n g)). lo \<le> x \<and> x \<le> hi)"
proof -
  note c = assms [unfolded np_contract_def]
  show "\<forall>m s n g. length (fst (lognormal np m s n g)) = n
               \<and> (\<forall>x \<in> set (fst (lognormal np m s n g)). 0 < x)"
    by (rule c [THEN conjunct1])
  show "\<forall>vs n p g. vs \<noteq> [] \<longrightarrow> length (fst (choice_p np vs n p g)) = n
               \<and> set (fst (choice_p np vs n p g)) \<subseteq> set vs"
    by (rule c [THEN conjunct2, THEN conjunct1])
  show "\<forall>vs n g. vs \<noteq> [] \<longrightarrow> length (fst (choice np vs n g)) = n
               \<and> set (fst (choice np vs n g)) \<subseteq> set vs"
    by (rule c [THEN conjunct2, THEN conjunct2, THEN conjunct1])
  show "\<forall>lo hi g. lo < hi \<longrightarrow> lo \<le> fst (randint np lo hi g) \<and> fst (randint np lo hi g) < hi"
    by (rule c [THEN conjunct2, THEN conjunct2, THEN conjunct2, THEN conjunct1])
  show "\<forall>n g. length (fst (random np n g)) = n
               \<and> (\<forall>x \<in> set (fst (random np n g)). 0 \<le> x \<and> x < 1)"
    by (rule c [THEN conjunct2, THEN conjunct2, THEN conjunct2, THEN conjunct2, THEN conjunct1])
  show "\<forall>lo hi n g. lo \<le> hi \<longrightarrow> length (fst (uniform np lo hi n g)) = n
               \<and> (\<forall>x \<in> set (fst (uniform np lo hi n g)). lo \<le> x \<and> x \<le> hi)"
    by (rule c [THEN conjunct2, THEN conjunct2, THEN conjunct2, THEN conjunct2, THEN conjunct2])
qed

lemma contract_lognormal:
  assumes "np_contract np"
  shows "length (fst (lognormal np m s n g)) = n"
    and "x \<in> set (fst (lognormal np m s n g)) \<Longrightarrow> 0 < x"
proof -
  have *: "length (fst (lognormal np m s n g)) = n
            \<and> (\<forall>x \<in> set (fst (lognormal np m s n g)). 0 < x)"
    using contract_parts(1) [OF assms] by (elim allE)
  show "length (fst (lognormal np m s n g)) = n" using * by (rule conjunct1)
  show "x \<in> set (fst (lognormal np m s n g)) \<Longrightarrow> 0 < x" using * by (elim conjE bspec)
qed

lemma contract_choice_p:
  assumes "np_contract np" and "vs \<noteq> []"
  shows "length (fst (choice_p np vs n p g)) = n"
    and "set (fst (choice_p np vs n p g)) \<subseteq> set vs"
proof -
  have *: "vs \<noteq> [] \<longrightarrow> length (fst (choice_p np vs n p g)) = n
            \<and> set (fst (choice_p np vs n p g)) \<subseteq> set vs"
    using contract_parts(2) [OF assms(1)] by (elim allE)
  show "length (fst (choice_p np vs n p g)) = n" using * assms(2) by (elim impE conjE)
  show "set (fst (choice_p np vs n p g)) \<subseteq> set vs" using * assms(2) by (elim impE conjE)
qed

lemma contract_choice:
  assumes "np_contract np" and "vs \<noteq> []"
  shows "length (fst (choice np vs n g)) = n"
    and "set (fst (choice np vs n g)) \<subseteq> set vs"
proof -
  have *: "vs \<noteq> [] \<longrightarrow> length (fst (choice np vs n g)) = n
            \<and> set (fst (choice np vs n g)) \<subseteq> set vs"
    using contract_parts(3) [OF assms(1)] by (elim allE)
  show "length (fst (choice np vs n g)) = n" using * assms(2) by (elim impE conjE)
  show "set (fst (choice np vs n g)) \<subseteq> set vs" using * assms(2) by (elim impE conjE)
qed

lemma contract_random:
  assumes "np_contract np"
  shows "length (fst (random np n g)) = n"
    and "x \<in> set (fst (random np n g)) \<Longrightarrow> 0 \<le> x \<and> x < 1"
proof -
  have *: "length (fst (random np n g)) = n
            \<and> (\<forall>x \<in> set (fst (random np n g)). 0 \<le> x \<and> x < 1)"
    using contract_parts(5) [OF assms] by (elim allE)
  show "length (fst (random np n g)) = n" using * by (rule conjunct1)
  show "x \<in> set (fst (random np n g)) \<Longrightarrow> 0 \<le> x \<and> x < 1" using * by (elim conjE bspec)
qed

lemma contract_uniform:
  assumes "np_contract np" and "lo \<le> hi"
  shows "length (fst (uniform np lo hi n g)) = n"
    and "x \<in> set (fst (uniform np lo hi n g)) \<Longrightarrow> lo \<le> x \<and> x \<le> hi"
proof -
  have "lo \<le> hi \<longrightarrow> length (fst (uniform np lo hi n g)) = n
            \<and> (\<forall>x \<in> set (fst (uniform np lo hi n g)). lo \<le> x \<and> x \<le> hi)"
    using contract_parts(6) [OF assms(1)] by (elim allE)
  with assms(2) have *: "length (fst (uniform np lo hi n g)) = n
            \<and> (\<forall>x \<in> set (fst (uniform np lo hi n g)). lo \<le> x \<and> x \<le> hi)"
    by (elim impE)
  show "length (fst (uniform np lo hi n g)) = n" using * by (rule conjunct1)
  show "x \<in> set (fst (uniform np lo hi n g)) \<Longrightarrow> lo \<le> x \<and> x \<le> hi"
    using * by (elim conjE bspec)
qed

lemma user_ids_length: "length (fst (user_ids np k g)) = k"
  by (induction k arbitrary: g) (simp_all add: split_beta)

lemma merchants_nonempty: "merchants \<noteq> []"
  by (simp add: merchants_def)

lemma countries_nonempty: "countries \<noteq> []"
  by (simp add: countries_def)

lemma draw_all_lengths:
  assumes "np_contract np"
  shows "length (d_amount (draw_all np n)) = n"
    and "length (d_merchant (draw_all np n)) = n"
    and "length (d_country (draw_all np n)) = n"
    and "length (d_user_id (draw_all np n)) = n"
    and "length (d_label (draw_all np n)) = n"
    and "length (d_high (draw_all np n)) = n"
    and "length (d_low (draw_all np n)) = n"
  unfolding draw_all_def Let_def split_beta
  by (simp_all add: contract_lognormal(1) [OF assms]
        contract_choice_p(1) [OF assms merchants_nonempty]
        contract_choice(1) [OF assms countries_nonempty]
        user_ids_length contract_random(1) [OF assms] contract_uniform(1) [OF assms])

lemma same_length_contract:
  "np_contract np \<Longrightarrow> same_length n dates (draw_all np n) \<longleftrightarrow> length dates = n"
  by (simp add: same_length_def draw_all_lengths)

lemma generate_contract:
  assumes "np_contract np" and "0 \<le> n"
  shows "\<exists>dates. date_range res (now1 - timedelta_days 30) now2 n = Inr dates
           \<and> length dates = nat n
           \<and> generate_fraud_data np res g now1 now2 n
               = Inr (map (full_row dates (draw_all np (nat n))) [0..<nat n])"
proof -
  obtain ds where ds: "date_range res (now1 - timedelta_days 30) now2 n = Inr ds" "length ds = nat n"
    using date_range_Inr [OF assms(2)] by blast
  then show ?thesis
    by (simp add: generate_fraud_data_def same_length_contract [OF assms(1)])
qed

lemma generate_zero:
  assumes "np_contract np"
  shows "generate_fraud_data np res g now1 now2 0 = Inr []"
  using generate_contract [OF assms, of 0 res now1 now2 g] by auto

section \<open>Sums over a frame\<close>

lemma bool_sum_filter: "bool_sum (map p xs) = length (filter p xs)"
  by (induction xs) (simp_all add: bool_sum_def)

lemma sum_list_nth: "sum_list (map f xs) = (\<Sum>i<length xs. f (xs ! i))"
proof -
  have "sum_list (map f xs) = (\<Sum>i = 0..<length (map f xs). map f xs ! i)"
    by (rule sum_list_sum_nth)
  also have "\<dots> = (\<Sum>i = 0..<length xs. f (xs ! i))" by simp
  finally show ?thesis by (simp add: atLeast0LessThan)
qed

lemma sum_list_filter_nth:
  "sum_list (map f (filter p xs)) = (\<Sum>i \<in> {i. i < length xs \<and> p (xs ! i)}. f (xs ! i))"
    for f :: "'a \<Rightarrow> real"
proof -
  have "sum_list (map f (filter p xs)) = sum_list (map (\<lambda>x. if p x then f x else 0) xs)"
    by (induction xs) simp_all
  also have "\<dots> = (\<Sum>i<length xs. if p (xs ! i) then f (xs ! i) else 0)"
    by (rule sum_list_nth)
  also have "\<dots> = (\<Sum>i \<in> {i \<in> {..<length xs}. p (xs ! i)}. f (xs ! i))"
    by (rule sum.inter_filter [symmetric]) simp
  also have "{i \<in> {..<length xs}. p (xs ! i)} = {i. i < length xs \<and> p (xs ! i)}" by auto
  finally show ?thesis .
qed

lemma example_ledger_length: "length example_ledger = 3"
  by (simp add: example_ledger_def)

lemma example_ledger_nonempty: "example_ledger \<noteq> []"
  by (simp add: example_ledger_def)

section \<open>Selections and their index labels\<close>

lemma map_snd_boolean_mask: "map snd (boolean_mask p df) = filter p df"
proof -
  have "map snd (filter (\<lambda>(i, r). p r) (enumerate n xs)) = filter p xs" for n and xs :: "'a list"
    by (induction xs arbitrary: n) simp_all
  then show ?thesis by (simp add: boolean_mask_def)
qed

lemma distinct_boolean_mask: "distinct (map fst (boolean_mask p df))"
  unfolding boolean_mask_def by (rule distinct_map_filter) simp

lemma set_boolean_mask:
  "set (boolean_mask p df) = {(i, r). i < length df \<and> r = df ! i \<and> p r}"
  by (auto simp: boolean_mask_def in_set_enumerate_eq)

lemma column_fst: "map fst (column f rows) = map fst rows"
  by (simp add: column_def split_beta)

lemma column_snd: "map snd (column f rows) = map f (map snd rows)"
  by (simp add: column_def split_beta)

lemma set_column_mask:
  "set (column f (boolean_mask p df)) = {(i, a). i < length df \<and> a = f (df ! i) \<and> p (df ! i)}"
  by (auto simp: column_def set_boolean_mask image_iff)

lemma distinct_column_mask: "distinct (map fst (column f (boolean_mask p df)))"
  by (simp only: column_fst distinct_boolean_mask)

lemma values_column_mask: "map snd (column f (boolean_mask p df)) = map f (filter p df)"
  by (simp only: column_snd map_snd_boolean_mask)

section \<open>Rows of a generated ledger\<close>

lemma draw_all_amount_pos:
  assumes "np_contract np" and "x \<in> set (d_amount (draw_all np n))"
  shows "0 < x"
  using assms(2) unfolding draw_all_def Let_def split_beta
  by (simp add: contract_lognormal(2) [OF assms(1)])

lemma draw_all_label_range:
  assumes "np_contract np" and "x \<in> set (d_label (draw_all np n))"
  shows "0 \<le> x \<and> x < 1"
  using assms(2) unfolding draw_all_def Let_def split_beta
  by (simp add: contract_random(2) [OF assms(1)])

lemma draw_all_high_range:
  assumes "np_contract np" and "x \<in> set (d_high (draw_all np n))"
  shows "7 / 10 \<le> x \<and> x \<le> 1"
proof -
  have "(7 / 10 :: real) \<le> 1" by simp
  from contract_uniform(2) [OF assms(1) this] assms(2) show ?thesis
    unfolding draw_all_def Let_def split_beta by simp
qed

lemma draw_all_low_range:
  assumes "np_contract np" and "x \<in> set (d_low (draw_all np n))"
  shows "0 \<le> x \<and> x \<le> 6 / 10"
proof -
  have "(0 :: real) \<le> 6 / 10" by simp
  from contract_uniform(2) [OF assms(1) this] assms(2) show ?thesis
    unfolding draw_all_def Let_def split_beta by simp
qed

lemma full_row_sel:
  "transaction_id (full_row dates d i) = ''TX'' @ fmt_08d i"
  "date (full_row dates d i) = dates ! i"
  "amount (full_row dates d i) = round_np (d_amount d ! i) 2"
  "merchant (full_row dates d i) = d_merchant d ! i"
  "country (full_row dates d i) = d_country d ! i"
  "user_id (full_row dates d i) = d_user_id d ! i"
  by (simp_all add: full_row_def base_row_def Let_def)

lemma full_row_conditions:
  "fraud_conditions (full_row dates d i) = fraud_conditions (base_row dates d i)"
  by (simp add: fraud_conditions_def full_row_def Let_def)

lemma full_row_is_fraud:
  "is_fraud (full_row dates d i)
     = (fraud_conditions (full_row dates d i) \<and> label_draw (d_label d ! i))"
  unfolding full_row_conditions by (simp add: full_row_def Let_def)

lemma full_row_risk_score:
  "risk_score (full_row dates d i)
     = round_np (np_where (is_fraud (full_row dates d i)) (d_high d ! i) (d_low d ! i)) 3"
  by (simp add: full_row_def Let_def)

section \<open>The label rule and the fields that do not depend on the clock\<close>

lemma fraud_conditions_unfold:
  "fraud_conditions r \<longleftrightarrow>
     amount r > 10000 \<or> merchant r = ''UNKNOWN''
     \<or> (5000 \<le> amount r \<and> amount r \<le> 10000 \<and> (country r = ''IN'' \<or> country r = ''BR''))"
  by (auto simp: fraud_conditions_def between_def isin_def)

lemma label_draw_interval: "{u. 0 \<le> u \<and> u < 1 \<and> label_draw u} = {3 / 10 <..< 1}"
  by (auto simp: label_draw_def)

lemma full_row_other_fields:
  "other_fields (full_row dates d i) = other_fields (full_row dates' d i)"
  by (simp add: other_fields_def full_row_def base_row_def Let_def fraud_conditions_def)

lemma generate_ignores_state:
  "generate_fraud_data np res g now1 now2 n = generate_fraud_data np res g' now1 now2 n"
  by (simp add: generate_fraud_data_def)

lemma later_dates:
  "date_range Ns (1 - timedelta_days 30) 1 3
     = Inr [- 2591999999999000, - 1295999999999000, 1000]"
  by (simp add: date_range_def linspace_30_days_3 Timestamp_def timedelta_days_def)

section \<open>The date column\<close>

text \<open>
  The samples of \<open>linspace\<close> are float64 products, so a timestamp is not the floor of
  its exact position \<open>i * W / (N - 1)\<close>. The two roundings of a sample move it by less
  than \<open>3 / 5\<close> of a tick over a window of up to 31 days, and the floor by less than one
  more; the two ends are exact.
\<close>

lemma err_chain:
  fixes y p t :: real
  assumes "\<bar>p - t\<bar> \<le> t / 9007199254740992"
    and "\<bar>y - p\<bar> \<le> \<bar>p\<bar> / 9007199254740992"
    and "0 \<le> t" and "t \<le> 2678400000000000"
  shows "\<bar>y - t\<bar> \<le> 3 / 5"
  using assms by linarith

lemma sample_err:
  fixes W d :: real
  assumes "0 < W" and "W \<le> 2678400000000000" and "0 < d" and "real i \<le> d"
  shows "\<bar>float64 (real i * float64 (W / d)) - real i * (W / d)\<bar> \<le> 3 / 5"
proof -
  let ?s = "W / d"
  let ?t = "real i * ?s"
  let ?p = "real i * float64 ?s"
  from assms have s: "0 < ?s" by simp
  then have t0: "0 \<le> ?t" by (intro mult_nonneg_nonneg) simp_all
  have "?t \<le> d * ?s" using assms(4) s by (intro mult_right_mono) simp_all
  with assms(3) have tW: "?t \<le> W" by simp
  from float64_err [of ?s] s have "\<bar>float64 ?s - ?s\<bar> \<le> ?s / 9007199254740992"
    by (simp only: abs_of_pos)
  then have "real i * \<bar>float64 ?s - ?s\<bar> \<le> real i * (?s / 9007199254740992)"
    by (intro mult_left_mono) simp_all
  moreover have "\<bar>?p - ?t\<bar> = real i * \<bar>float64 ?s - ?s\<bar>"
    by (simp only: right_diff_distrib [symmetric] abs_mult abs_of_nat)
  ultimately have 1: "\<bar>?p - ?t\<bar> \<le> ?t / 9007199254740992" by simp
  have 2: "\<bar>float64 ?p - ?p\<bar> \<le> \<bar>?p\<bar> / 9007199254740992" by (rule float64_err)
  from tW assms(2) have "?t \<le> 2678400000000000" by (rule order_trans)
  with 1 2 t0 show ?thesis by (rule err_chain)
qed

lemma linspace_nth:
  assumes "2 \<le> n" and "n \<le> 9007199254740992" and "0 < W" and "W \<le> 2678400000000000"
    and "i < nat n"
  shows "\<exists>vs. linspace W n = Inr vs \<and> length vs = nat n
              \<and> vs ! 0 = 0 \<and> vs ! (nat n - 1) = W
              \<and> real i * (real_of_int W / real_of_int (n - 1)) - 8 / 5 < real_of_int (vs ! i)
              \<and> real_of_int (vs ! i) \<le> real i * (real_of_int W / real_of_int (n - 1)) + 3 / 5"
proof -
  let ?d = "real_of_int (n - 1)"
  let ?s = "float64 (real_of_int W / ?d)"
  let ?y = "map (\<lambda>v. float64 (v * ?s)) (map real [0..<nat n])"
  let ?vs = "map floor (?y[nat n - 1 := real_of_int W])"
  have fW: "float64 (real_of_int W) = real_of_int W"
    using assms(3,4) by (intro float64_int) simp_all
  have fd: "float64 (real_of_int (n - 1)) = real_of_int (n - 1)"
    using assms(1,2) by (intro float64_int) simp_all
  have "map (\<lambda>i. float64 (real i)) [0..<nat n] = map real [0..<nat n]"
  proof (rule map_cong [OF refl])
    fix j assume "j \<in> set [0..<nat n]"
    with assms(2) have "j < 9007199254740992" by simp
    then show "float64 (real j) = real j" by (rule float64_nat)
  qed
  note fi = this
  from assms(1,3) have "0 < real_of_int W / ?d" by simp
  then have s0: "0 < ?s" by (rule float64_pos)
  from assms(1) have d0: "0 < ?d" by simp
  have lin: "linspace W n = Inr ?vs"
    unfolding linspace_def Let_def fW fd fi using assms(1) s0 d0 by simp
  have len: "length ?vs = nat n" by simp
  from assms(1) have v0: "?vs ! 0 = 0" by (simp add: nth_list_update)
  from assms(1) have vl: "?vs ! (nat n - 1) = W" by simp
  have b: "real i * (real_of_int W / ?d) - 8 / 5 < real_of_int (?vs ! i)
         \<and> real_of_int (?vs ! i) \<le> real i * (real_of_int W / ?d) + 3 / 5"
  proof (cases "i = nat n - 1")
    case True
    with assms(1) have "real i = ?d" by simp
    with d0 have "real i * (real_of_int W / ?d) = real_of_int W" by simp
    with True vl show ?thesis by simp
  next
    case False
    with assms(5) have e: "?vs ! i = \<lfloor>float64 (real i * ?s)\<rfloor>" by simp
    from assms(1,5) have "real i \<le> ?d" by simp
    from sample_err [OF _ _ d0 this, of "real_of_int W"] assms(3,4)
    have "\<bar>float64 (real i * ?s) - real i * (real_of_int W / ?d)\<bar> \<le> 3 / 5" by simp
    then show ?thesis unfolding e by linarith
  qed
  from lin len v0 vl b show ?thesis by blast
qed

lemma date_range_nth:
  assumes "2 \<le> n" and "n \<le> 9007199254740992"
    and "0 < Timestamp res e - Timestamp res s"
    and "Timestamp res e - Timestamp res s \<le> 2678400000000000"
    and "i < nat n" and "date_range res s e n = Inr ds"
  shows "ds ! 0 = Timestamp res s \<and> ds ! (nat n - 1) = Timestamp res e
       \<and> real i * (real_of_int (Timestamp res e - Timestamp res s) / real_of_int (n - 1)) - 8 / 5
           < real_of_int (ds ! i - Timestamp res s)
       \<and> real_of_int (ds ! i - Timestamp res s)
           \<le> real i * (real_of_int (Timestamp res e - Timestamp res s) / real_of_int (n - 1)) + 3 / 5"
proof -
  let ?W = "Timestamp res e - Timestamp res s"
  from linspace_nth [OF assms(1,2,3,4,5)] obtain vs where
    vs: "linspace ?W n = Inr vs" "length vs = nat n" "vs ! 0 = 0" "vs ! (nat n - 1) = ?W"
        "real i * (real_of_int ?W / real_of_int (n - 1)) - 8 / 5 < real_of_int (vs ! i)"
        "real_of_int (vs ! i) \<le> real i * (real_of_int ?W / real_of_int (n - 1)) + 3 / 5"
    by blast
  from assms(6) vs(1) have ds: "ds = map (\<lambda>v. v + Timestamp res s) vs"
    by (simp add: date_range_def)
  from assms(1) have "0 < nat n" "nat n - 1 < nat n" by simp_all
  with vs(2) ds assms(5) have "ds ! 0 = vs ! 0 + Timestamp res s"
    "ds ! (nat n - 1) = vs ! (nat n - 1) + Timestamp res s" "ds ! i = vs ! i + Timestamp res s"
    by simp_all
  with vs(3,4,5,6) show ?thesis by simp
qed

lemma window_width_eq:
  "window_width res now1 now2 = per_us res * (2592000000000 + (now2 - now1))"
  by (simp add: window_width_def window_start_def Timestamp_def timedelta_days_def algebra_simps)

lemma per_us_bounds: "1 \<le> per_us res \<and> per_us res \<le> 1000"
  by (cases res) simp_all

lemma window_width_bounds:
  assumes "now1 \<le> now2" and "now2 - now1 \<le> 86400000000"
  shows "2592000000000 \<le> window_width res now1 now2"
    and "window_width res now1 now2 \<le> 2678400000000000"
proof -
  let ?k = "2592000000000 + (now2 - now1)"
  from assms have k: "2592000000000 \<le> ?k" "?k \<le> 2678400000000" by simp_all
  from per_us_bounds [of res] have p: "1 \<le> per_us res" "per_us res \<le> 1000" by simp_all
  from k(1) p(1) have "1 * ?k \<le> per_us res * ?k" by (intro mult_right_mono) simp_all
  then have "?k \<le> per_us res * ?k" by (simp only: mult_1)
  with k(1) have "2592000000000 \<le> per_us res * ?k" by (rule order_trans)
  then show "2592000000000 \<le> window_width res now1 now2"
    by (simp only: window_width_eq)
  from p k have "per_us res * ?k \<le> 1000 * 2678400000000" by (intro mult_mono) simp_all
  then show "window_width res now1 now2 \<le> 2678400000000000"
    by (simp only: window_width_eq)
qed

lemma generate_date_window:
  assumes "generate_fraud_data np res g now1 now2 n = Inr df"
    and "2 \<le> n" and "n \<le> 9007199254740992"
    and "now1 \<le> now2" and "now2 - now1 \<le> 86400000000" and "i < nat n"
  shows "date (df ! 0) = window_start res now1"
    and "date (df ! (nat n - 1)) = Timestamp res now2"
    and "real i * (real_of_int (window_width res now1 now2) / real_of_int (n - 1)) - 8 / 5
           < real_of_int (date (df ! i) - window_start res now1)"
    and "real_of_int (date (df ! i) - window_start res now1)
           \<le> real i * (real_of_int (window_width res now1 now2) / real_of_int (n - 1)) + 3 / 5"
proof -
  let ?s = "now1 - timedelta_days 30"
  from generate_length [OF assms(1)] assms(2,6)
  have l: "0 < length df" "nat n - 1 < length df" "i < length df" by simp_all
  from generate_nth [OF assms(1) l(1)] generate_nth [OF assms(1) l(2)]
    generate_nth [OF assms(1) l(3)]
  obtain dates where
    d: "date_range res ?s now2 n = Inr dates"
       "df ! 0 = full_row dates (draw_all np (nat n)) 0"
       "df ! (nat n - 1) = full_row dates (draw_all np (nat n)) (nat n - 1)"
       "df ! i = full_row dates (draw_all np (nat n)) i"
    by auto
  from window_width_bounds [OF assms(4,5), of res]
  have W: "0 < Timestamp res now2 - Timestamp res ?s"
    "Timestamp res now2 - Timestamp res ?s \<le> 2678400000000000"
    by (simp_all add: window_width_def window_start_def)
  note r = date_range_nth [OF assms(2,3) W assms(6) d(1)]
  from r d(2) show "date (df ! 0) = window_start res now1"
    by (simp add: full_row_sel window_start_def)
  from r d(3) show "date (df ! (nat n - 1)) = Timestamp res now2"
    by (simp add: full_row_sel)
  from r d(4) show "real i * (real_of_int (window_width res now1 now2) / real_of_int (n - 1)) - 8 / 5
           < real_of_int (date (df ! i) - window_start res now1)"
    by (simp add: full_row_sel window_start_def window_width_def)
  from r d(4) show "real_of_int (date (df ! i) - window_start res now1)
           \<le> real i * (real_of_int (window_width res now1 now2) / real_of_int (n - 1)) + 3 / 5"
    by (simp add: full_row_sel window_start_def window_width_def)
qed

lemma generate_date_mono:
  assumes "generate_fraud_data np res g now1 now2 n = Inr df"
    and "2 \<le> n" and "n \<le> 1000000000"
    and "now1 \<le> now2" and "now2 - now1 \<le> 86400000000" and "i < j" and "j < nat n"
  shows "date (df ! i) < date (df ! j)"
proof -
  let ?q = "real_of_int (window_width res now1 now2) / real_of_int (n - 1)"
  from assms(3) have n: "n \<le> 9007199254740992" by simp
  from assms(6,7) have i: "i < nat n" by simp
  note a = generate_date_window(4) [OF assms(1,2) n assms(4,5) i]
  note b = generate_date_window(3) [OF assms(1,2) n assms(4,5) assms(7)]
  from window_width_bounds(1) [OF assms(4,5), of res] assms(2,3)
  have "2592 * (n - 1) \<le> window_width res now1 now2"
    by simp
  then have "real_of_int (2592 * (n - 1)) \<le> real_of_int (window_width res now1 now2)"
    by (simp only: of_int_le_iff)
  then have "2592 * real_of_int (n - 1) \<le> real_of_int (window_width res now1 now2)"
    by simp
  with assms(2) have q: "2592 \<le> ?q" by (simp add: pos_le_divide_eq)
  from assms(6) have "real i + 1 \<le> real j" by linarith
  then have "(real i + 1) * ?q \<le> real j * ?q" using q by (intro mult_right_mono) simp_all
  then have "real i * ?q + ?q \<le> real j * ?q" by (simp only: distrib_right mult_1)
  with a b q have "real_of_int (date (df ! i) - window_start res now1)
      < real_of_int (date (df ! j) - window_start res now1)" by linarith
  then show ?thesis by simp
qed

lemma steps_length: "length (steps ts) = length ts - 1"
  by (induction ts rule: steps.induct) simp_all

lemma steps_sum: "ts \<noteq> [] \<Longrightarrow> sum_list (steps ts) = last ts - hd ts"
  by (induction ts rule: steps.induct) simp_all

lemma evenly_spaced_width:
  assumes "evenly_spaced ts" and "ts \<noteq> []"
  shows "last ts - hd ts = int (length ts - 1) * hd (steps ts)"
proof -
  from assms(1) have "sum_list (steps ts) = sum_list (replicate (length (steps ts)) (hd (steps ts)))"
    by (simp only: evenly_spaced_def)
  then show ?thesis by (simp add: steps_sum [OF assms(2)] steps_length sum_list_replicate)
qed

text \<open>
  Eight samples across 30 days, in nanoseconds and in microseconds. In nanoseconds the
  steps from sample 2 to 3 and from 5 to 6 are one tick longer than the others.
\<close>

lemma linspace_30_days_8:
  "linspace 2592000000000000 8
     = Inr [0, 370285714285714, 740571428571428, 1110857142857143, 1481142857142857,
            1851428571428571, 2221714285714286, 2592000000000000]"
  by (simp add: linspace_def Let_def upt_rec float64_eval [of 48] float64_eval [of 49]
        float64_eval [of 50] rint_def)

lemma linspace_30_days_8_us:
  "linspace 2592000000000 8
     = Inr [0, 370285714285, 740571428571, 1110857142857, 1481142857142,
            1851428571428, 2221714285714, 2592000000000]"
  by (simp add: linspace_def Let_def upt_rec float64_eval [of 38] float64_eval [of 39]
        float64_eval [of 40] float64_eval [of 41] rint_def)

lemma generate_dates:
  assumes "generate_fraud_data np res g now1 now2 n = Inr df"
  shows "date_range res (now1 - timedelta_days 30) now2 n = Inr (map date df)"
proof -
  from generate_Inr [OF assms] obtain dates where
    d: "date_range res (now1 - timedelta_days 30) now2 n = Inr dates"
       "same_length (nat n) dates (draw_all np (nat n))"
       "df = map (full_row dates (draw_all np (nat n))) [0..<nat n]"
    by blast
  from date_range_cases [OF d(1)] have l: "length dates = nat n" by simp
  have "map date df = dates"
    by (rule nth_equalityI) (simp_all add: d(3) l full_row_sel)
  with d(1) show ?thesis by simp
qed

lemma eight_timestamps:
  assumes "generate_fraud_data np res g 0 0 8 = Inr df"
  shows "res = Ns \<Longrightarrow> steps (map date df)
           = [370285714285714, 370285714285714, 370285714285715, 370285714285714,
              370285714285714, 370285714285715, 370285714285714]"
    and "res = Us \<Longrightarrow> steps (map date df)
           = [370285714285, 370285714286, 370285714286, 370285714285,
              370285714286, 370285714286, 370285714286]"
  using generate_dates [OF assms]
  by (auto simp: date_range_def Timestamp_def timedelta_days_def linspace_30_days_8
        linspace_30_days_8_us)

text \<open>
  Eight timestamps with both ends exact and the clock readings equal cannot be evenly
  spaced: seven equal steps would divide 30 days.
\<close>

lemma eight_records_uneven:
  assumes "generate_fraud_data np res g 0 0 8 = Inr df"
  shows "\<not> evenly_spaced (map date df)"
proof
  assume ev: "evenly_spaced (map date df)"
  from generate_length [OF assms] have len: "length df = 8" by simp
  then have ne: "map date df \<noteq> []" by auto
  have n: "(2::int) \<le> 8" "(8::int) \<le> 9007199254740992" "(0::int) \<le> 0"
    "(0::int) - 0 \<le> 86400000000" "(0::nat) < nat 8"
    by simp_all
  note w = generate_date_window(1,2) [OF assms n]
  from len ne have "hd (map date df) = date (df ! 0)" by (simp add: hd_conv_nth)
  moreover from len ne have "last (map date df) = date (df ! 7)" by (simp add: last_conv_nth)
  moreover have "nat 8 - 1 = (7::nat)" by simp
  ultimately have "last (map date df) - hd (map date df) = window_width res 0 0"
    using w by (simp add: window_width_def)
  with evenly_spaced_width [OF ev ne] len
  have "window_width res 0 0 = 7 * hd (steps (map date df))" by simp
  then have "window_width res 0 0 mod 7 = 0" by simp
  then show False by (cases res) (simp_all add: window_width_eq)
qed

lemma example_dates_column:
  "map date example_ledger = [- 2592000000000000, - 1296000000000000, 0]"
  by (simp add: example_ledger_def)

section \<open>The daily series\<close>

lemma daily_fraud_dates:
  "map g_date (daily_fraud res df) = sort (remdups (map (\<lambda>r. dt_date res (date r)) df))"
  by (simp add: daily_fraud_def groupby_date_agg_def comp_def Let_def)

lemma daily_fraud_counts:
  "map g_transaction_id (daily_fraud res df)
     = map (\<lambda>k. length (filter (\<lambda>r. dt_date res (date r) = k) df))
         (sort (remdups (map (\<lambda>r. dt_date res (date r)) df)))"
  by (simp add: daily_fraud_def groupby_date_agg_def comp_def Let_def)

lemma group_sizes_sum:
  "(\<Sum>k \<leftarrow> sort (remdups (map f xs)). length (filter (\<lambda>r. f r = k) xs)) = length xs"
    for f :: "'a \<Rightarrow> int"
proof -
  have c: "length (filter (\<lambda>r. f r = k) xs) = count_list (map f xs) k" for k
    by (induction xs) simp_all
  have "(\<Sum>k \<leftarrow> sort (remdups (map f xs)). length (filter (\<lambda>r. f r = k) xs))
      = (\<Sum>k \<leftarrow> sort (remdups (map f xs)). count_list (map f xs) k)"
    by (simp only: c)
  also have "\<dots> = sum (count_list (map f xs)) (set (sort (remdups (map f xs))))"
    by (rule sum_list_distinct_conv_sum_set) simp
  also have "\<dots> = sum (count_list (map f xs)) (set (map f xs))" by simp
  also have "\<dots> = length (map f xs)" by (rule sum_count_set) simp_all
  finally show ?thesis by simp
qed

lemma length_filter_conj_le:
  "length (filter (\<lambda>r. P r \<and> Q r) xs) \<le> length (filter P xs)"
  by (induction xs) simp_all

lemma daily_fraud_entry:
  assumes "e \<in> set (daily_fraud res df)"
  shows "g_date e \<in> (\<lambda>r. dt_date res (date r)) ` set df
       \<and> g_transaction_id e = length (filter (\<lambda>r. dt_date res (date r) = g_date e) df)
       \<and> g_is_fraud e
           = length (filter (\<lambda>r. dt_date res (date r) = g_date e \<and> is_fraud r) df)
       \<and> g_fraud_rate e
           = round_npfloat
               (column_multiply
                  (column_true_divide (g_is_fraud e) (g_transaction_id e)) 100) 2"
proof -
  from assms obtain k where k: "k \<in> (\<lambda>r. dt_date res (date r)) ` set df"
    and e: "e = \<lparr>g_date = k,
                 g_transaction_id = length (filter (\<lambda>r. dt_date res (date r) = k) df),
                 g_is_fraud = bool_sum (map is_fraud (filter (\<lambda>r. dt_date res (date r) = k) df)),
                 g_fraud_rate =
                   round_npfloat
                     (column_multiply
                        (column_true_divide
                           (bool_sum (map is_fraud (filter (\<lambda>r. dt_date res (date r) = k) df)))
                           (length (filter (\<lambda>r. dt_date res (date r) = k) df))) 100) 2\<rparr>"
    by (auto simp: daily_fraud_def groupby_date_agg_def Let_def)
  have "bool_sum (map is_fraud (filter (\<lambda>r. dt_date res (date r) = k) df))
      = length (filter (\<lambda>r. dt_date res (date r) = k \<and> is_fraud r) df)"
    by (simp add: bool_sum_filter conj_commute)
  with k e show ?thesis by simp
qed

lemma dt_date_bounds:
  "86400000000 * per_us res * dt_date res t \<le> t
   \<and> t < 86400000000 * per_us res * (dt_date res t + 1)"
proof -
  let ?D = "86400 * 1000000 * per_us res"
  from per_us_bounds [of res] have "0 < ?D" by simp
  then have "t mod ?D \<ge> 0" "t mod ?D < ?D" by simp_all
  moreover have "t = ?D * (t div ?D) + t mod ?D" by simp
  ultimately have "?D * (t div ?D) \<le> t \<and> t < ?D * (t div ?D + 1)"
    by (simp only: distrib_left mult_1_right) linarith
  then show ?thesis by (simp add: dt_date_def)
qed

lemma example_days:
  "dt_date Ns (- 2592000000000000) = - 30" "dt_date Ns (- 1296000000000000) = - 15"
  "dt_date Ns (- 2591999999999995) = - 30" "dt_date Ns 0 = 0"
  by (simp_all add: dt_date_def)

text \<open>
  The daily rate against the exact quotient: the three roundings before \<^verbatim>\<open>rint\<close> move the
  value by a few parts in \<open>2 ^ 53\<close>, \<^verbatim>\<open>rint\<close> by at most a half, the last quotient by one
  part in \<open>2 ^ 53\<close>.
\<close>

lemma rate_chain:
  fixes x a b c :: real
  assumes "0 \<le> x" and "x \<le> 1"
    and "\<bar>a - x\<bar> \<le> \<bar>x\<bar> / 9007199254740992"
    and "\<bar>b - a * 100\<bar> \<le> \<bar>a * 100\<bar> / 9007199254740992"
    and "\<bar>c - b * 100\<bar> \<le> \<bar>b * 100\<bar> / 9007199254740992"
  shows "\<bar>c - 10000 * x\<bar> \<le> 1 / 200000000000"
  using assms by linarith

lemma rate_chain_back:
  fixes x v w :: real
  assumes "0 \<le> x" and "x \<le> 1"
    and "\<bar>w - 10000 * x\<bar> \<le> 1 / 2 + 1 / 100000000000"
    and "\<bar>v - w / 100\<bar> \<le> \<bar>w / 100\<bar> / 9007199254740992"
  shows "\<bar>v - x * 100\<bar> \<le> 1 / 200 + 1 / 1000000000000"
  using assms by linarith

lemma daily_rate:
  assumes "f \<le> c" and "0 < c" and "c < 9007199254740992"
  shows "column_true_divide f c = Fin (float64 (real f / real c))"
    and "round_npfloat (column_multiply (column_true_divide f c) 100) 2
           = Fin (round_float64 (float64 (float64 (real f / real c) * 100)) 2)"
    and "\<exists>k. round_float64 (float64 (float64 (real f / real c) * 100)) 2
                = float64 (real_of_int k / 100)
           \<and> \<bar>real_of_int k - 10000 * (real f / real c)\<bar> \<le> 1 / 2 + 1 / 100000000000
           \<and> \<bar>float64 (real_of_int k / 100) - real f / real c * 100\<bar>
                \<le> 1 / 200 + 1 / 1000000000000"
proof -
  let ?x = "real f / real c"
  let ?a = "float64 ?x"
  let ?b = "float64 (?a * 100)"
  let ?c = "float64 (?b * 100)"
  let ?k = "rint ?c"
  from assms have ff: "float64 (real f) = real f" "float64 (real c) = real c"
    by (simp_all add: float64_nat)
  with assms(2) show d: "column_true_divide f c = Fin ?a"
    by (simp add: column_true_divide_def)
  then show "round_npfloat (column_multiply (column_true_divide f c) 100) 2
           = Fin (round_float64 ?b 2)"
    by simp
  from assms(1,2) have x: "0 \<le> ?x" "?x \<le> 1" by simp_all
  have "\<bar>?c - 10000 * ?x\<bar> \<le> 1 / 200000000000"
    using x float64_err [of ?x] float64_err [of "?a * 100"] float64_err [of "?b * 100"]
    by (rule rate_chain)
  with rint_err [of ?c] have k: "\<bar>real_of_int ?k - 10000 * ?x\<bar> \<le> 1 / 2 + 1 / 100000000000"
    by linarith
  have "\<bar>float64 (real_of_int ?k / 100) - ?x * 100\<bar> \<le> 1 / 200 + 1 / 1000000000000"
    using x k float64_err [of "real_of_int ?k / 100"] by (rule rate_chain_back)
  moreover have "round_float64 ?b 2 = float64 (real_of_int ?k / 100)"
    by (simp add: round_float64_def)
  ultimately show "\<exists>k. round_float64 ?b 2 = float64 (real_of_int k / 100)
           \<and> \<bar>real_of_int k - 10000 * ?x\<bar> \<le> 1 / 2 + 1 / 100000000000
           \<and> \<bar>float64 (real_of_int k / 100) - ?x * 100\<bar> \<le> 1 / 200 + 1 / 1000000000000"
    using k by blast
qed

text \<open>
  A day with 23 fraudulent records of 160: the exact rate 14.375 is a tie between two
  decimals, the float64 product is just below it, and the program reports 14.37.
\<close>

lemma rate_23_of_160:
  "round_npfloat (column_multiply (column_true_divide 23 160) 100) 2
     = Fin (float64 (1437 / 100))"
proof -
  have "rint (float64 (float64 (float64 (23 / 160) * 100) * 100)) = 1437"
    by code_simp
  then show ?thesis
    by (simp add: column_true_divide_def round_float64_def)
qed

section \<open>The ranking\<close>

lemma insort_key_ranked:
  fixes f :: "nat \<times> 'a \<Rightarrow> real"
  assumes "sorted_wrt (\<lambda>a b. f a < f b \<or> (f a = f b \<and> fst a < fst b)) ys"
    and "\<forall>q \<in> set ys. fst p < fst q"
  shows "sorted_wrt (\<lambda>a b. f a < f b \<or> (f a = f b \<and> fst a < fst b)) (insort_key f p ys)"
  using assms
proof (induction ys)
  case Nil
  then show ?case by simp
next
  case (Cons y ys)
  show ?case
  proof (cases "f p \<le> f y")
    case True
    have "f p < f q \<or> (f p = f q \<and> fst p < fst q)" if "q \<in> set (y # ys)" for q
    proof -
      from that Cons.prems(1) have "f y \<le> f q" by auto
      with True have "f p \<le> f q" by simp
      moreover from that Cons.prems(2) have "fst p < fst q" by auto
      ultimately show ?thesis by auto
    qed
    with True Cons.prems(1) show ?thesis by simp
  next
    case False
    from Cons.prems have "sorted_wrt (\<lambda>a b. f a < f b \<or> (f a = f b \<and> fst a < fst b))
                            (insort_key f p ys)"
      by (intro Cons.IH) simp_all
    moreover have "f y < f q \<or> (f y = f q \<and> fst y < fst q)"
      if "q \<in> set (insort_key f p ys)" for q
      using that False Cons.prems(1) by (auto simp: set_insort_key)
    ultimately show ?thesis using False by simp
  qed
qed

lemma sort_key_ranked:
  fixes f :: "nat \<times> 'a \<Rightarrow> real"
  assumes "sorted_wrt (\<lambda>a b. fst a < fst b) ps"
  shows "sorted_wrt (\<lambda>a b. f a < f b \<or> (f a = f b \<and> fst a < fst b)) (sort_key f ps)"
  using assms
proof (induction ps)
  case Nil
  then show ?case by simp
next
  case (Cons p ps)
  then have "sorted_wrt (\<lambda>a b. f a < f b \<or> (f a = f b \<and> fst a < fst b)) (sort_key f ps)"
    by simp
  moreover from Cons.prems have "\<forall>q \<in> set (sort_key f ps). fst p < fst q" by simp
  ultimately show ?case by (simp add: insort_key_ranked)
qed

lemma enumerate_increasing: "sorted_wrt (\<lambda>a b. fst a < fst b) (enumerate n xs)"
proof -
  have "sorted_wrt (<) (map fst (enumerate n xs))" by simp
  then show ?thesis by (simp only: sorted_wrt_map)
qed


lemma nlargest_ranked:
  "sorted_wrt (\<lambda>a b. col (snd b) < col (snd a)
                 \<or> (col (snd a) = col (snd b) \<and> fst a < fst b))
     (sort_key (\<lambda>(i, r). - col r) (enumerate 0 df))"
    for col :: "'a \<Rightarrow> real"
proof -
  have "sorted_wrt (\<lambda>a b. (case a of (i, r) \<Rightarrow> - col r) < (case b of (i, r) \<Rightarrow> - col r)
           \<or> ((case a of (i, r) \<Rightarrow> - col r) = (case b of (i, r) \<Rightarrow> - col r) \<and> fst a < fst b))
     (sort_key (\<lambda>(i, r). - col r) (enumerate 0 df))"
    by (rule sort_key_ranked) (rule enumerate_increasing)
  then show ?thesis by (simp add: split_beta)
qed

lemma nlargest_length: "length (nlargest n col df) = min n (length df)"
  by (simp add: nlargest_def min.commute)

lemma nlargest_rows:
  assumes "(i, r) \<in> set (nlargest n col df)"
  shows "i < length df \<and> r = df ! i"
proof -
  from assms have "(i, r) \<in> set (sort_key (\<lambda>(i, r). - col r) (enumerate 0 df))"
    unfolding nlargest_def by (rule in_set_takeD)
  then show ?thesis by (simp add: in_set_enumerate_eq)
qed

lemma nlargest_distinct: "distinct (map fst (nlargest n col df))"
proof -
  let ?l = "sort_key (\<lambda>(i, r). - col r) (enumerate 0 df)"
  have "mset ?l = mset (enumerate 0 df)" by (rule mset_sort)
  then have "mset (map fst ?l) = mset (map fst (enumerate 0 df))" by (simp only: mset_map)
  moreover have "distinct (map fst (enumerate 0 df))" by simp
  ultimately have "distinct (map fst ?l)" by (metis mset_eq_imp_distinct_iff)
  then have "distinct (take n (map fst ?l))" by (rule distinct_take)
  then show ?thesis by (simp add: nlargest_def take_map)
qed

lemma nlargest_order:
  fixes col :: "'a \<Rightarrow> real"
  assumes "i < j" and "j < length (nlargest n col df)"
  shows "col (snd (nlargest n col df ! j)) < col (snd (nlargest n col df ! i))
       \<or> (col (snd (nlargest n col df ! i)) = col (snd (nlargest n col df ! j))
          \<and> fst (nlargest n col df ! i) < fst (nlargest n col df ! j))"
proof -
  have "sorted_wrt (\<lambda>a b. col (snd b) < col (snd a)
                 \<or> (col (snd a) = col (snd b) \<and> fst a < fst b)) (nlargest n col df)"
    unfolding nlargest_def using nlargest_ranked by (rule sorted_wrt_take)
  from sorted_wrt_nth_less [OF this assms] show ?thesis .
qed

lemma nlargest_dominates:
  fixes col :: "'a \<Rightarrow> real"
  assumes "k < length df" and "k \<notin> fst ` set (nlargest n col df)"
    and "(i, r) \<in> set (nlargest n col df)"
  shows "col (df ! k) \<le> col r"
proof -
  let ?l = "sort_key (\<lambda>(i, r). - col r) (enumerate 0 df)"
  from assms(1) have "(k, df ! k) \<in> set ?l" by (simp add: in_set_enumerate_eq)
  then have "(k, df ! k) \<in> set (take n ?l) \<union> set (drop n ?l)"
    by (simp only: set_append [symmetric] append_take_drop_id)
  moreover from assms(2) have "(k, df ! k) \<notin> set (take n ?l)"
    by (force simp: nlargest_def)
  ultimately have d: "(k, df ! k) \<in> set (drop n ?l)" by simp
  have "sorted_wrt (\<lambda>a b. col (snd b) < col (snd a)
                 \<or> (col (snd a) = col (snd b) \<and> fst a < fst b)) (take n ?l @ drop n ?l)"
    using nlargest_ranked [of col df] by simp
  with assms(3) d have "col (snd (k, df ! k)) < col (snd (i, r))
     \<or> (col (snd (i, r)) = col (snd (k, df ! k)) \<and> fst (i, r) < fst (k, df ! k))"
    unfolding sorted_wrt_append nlargest_def by blast
  then show ?thesis by auto
qed

lemma to_dict_keys: "map fst (to_dict r) = frame_columns"
  by (simp add: to_dict_def frame_columns_def)

lemma table_columns_ids:
  "map snd table_columns
     = [''date'', ''transaction_id'', ''amount'', ''merchant'', ''risk_score'', ''is_fraud'']"
  "map fst table_columns = map snd table_columns"
  by (simp_all add: table_columns_def)

lemma table_columns_subset: "set (map snd table_columns) \<subseteq> set frame_columns"
  by (simp add: table_columns_def frame_columns_def)

lemma table_data_keys:
  "row \<in> set (table_data df) \<Longrightarrow> map fst row = frame_columns"
  by (auto simp: table_data_def to_dict_keys)

lemma example_twelve_ranking:
  "map fst (nlargest 10 risk_score
      (example_ledger @ example_ledger @ example_ledger @ example_ledger))
     = [0, 3, 6, 9, 2, 5, 8, 11, 1, 4]"
  by (simp add: nlargest_def example_ledger_def)

section \<open>The claims\<close>

text \<open>
  C4 (amended). A negative size is rejected: the date range raises \<^verbatim>\<open>ValueError\<close> before
  anything is drawn and no ledger is returned. Size 0 is not rejected: there is no check
  of the size in the function, and with a library that keeps its contract the result is
  the empty ledger.
\<close>

theorem generate_rejects_negative_only:
  "(n < 0 \<longrightarrow> generate_fraud_data np res g now1 now2 n = Inl ValueError)
   \<and> (np_contract np \<and> n = 0 \<longrightarrow> generate_fraud_data np res g now1 now2 n = Inr [])"
  using generate_neg [of n np res g now1 now2] generate_zero [of np res g now1 now2] by simp

text \<open>C4, witness: sizes \<open>-1\<close> and \<open>0\<close> with the scripted generator.\<close>

theorem generate_rejects_negative_only_witness:
  "(- 1 < (0::int) \<and> generate_fraud_data (scripted example_script) Ns [] 0 0 (- 1) = Inl ValueError)
   \<and> (np_contract (scripted example_script)
        \<and> generate_fraud_data (scripted example_script) Ns [] 0 0 0 = Inr [])"
  using generate_rejects_negative_only [of "- 1" "scripted example_script" Ns "[]" 0 0]
    generate_rejects_negative_only [of 0 "scripted example_script" Ns "[]" 0 0]
    scripted_contract [of example_script]
  by simp

text \<open>
  C4, counterexample to the claim as stated: for the size 0 the function returns a
  ledger (the empty one) and no error.
\<close>

theorem zero_size_not_rejected:
  "generate_fraud_data (scripted example_script) Ns [] 0 0 0 = Inr []"
  by (rule generate_zero [OF scripted_contract])

text \<open>
  C5 (amended). The metrics take no special path for an empty ledger: the fraud rate is
  the float division \<open>0 / 0\<close> times 100 and the mean is the mean of an empty column, and
  both are \<open>nan\<close>. Nothing is raised, and no zero or other chosen value is substituted.
\<close>

theorem empty_ledger_metrics_nan:
  "total_transactions df = 0 \<Longrightarrow> fraud_rate df = NaN \<and> mean_amount df = NaN"
  by (simp add: total_transactions_def fraud_rate_def mean_amount_def series_mean_def
        fraud_transactions_def bool_sum_def np_true_divide_def)

text \<open>C5, witness: the empty ledger.\<close>

theorem empty_ledger_metrics_nan_witness:
  "total_transactions [] = 0 \<and> fraud_rate [] = NaN \<and> mean_amount [] = NaN"
  using empty_ledger_metrics_nan [of "[]"] by (simp add: total_transactions_def)

text \<open>
  C5, counterexample to the claim as stated: on the empty ledger neither metric is a
  number, so neither is a zero or a value chosen by a policy.
\<close>

theorem empty_ledger_no_numeric_policy:
  "\<not> is_finite (fraud_rate []) \<and> \<not> is_finite (mean_amount [])"
  by (simp add: is_finite_def total_transactions_def fraud_rate_def mean_amount_def
        series_mean_def fraud_transactions_def bool_sum_def np_true_divide_def)

text \<open>
  C6. For a non-empty ledger: the total amount is the sum of the amounts of all records,
  the transaction count is the ledger size, the fraud count is the number of records
  labelled fraudulent, the fraud amount is the sum of the amounts of those records, the
  fraud rate is fraud count over transaction count times 100, and the mean amount is
  the total amount over the transaction count.
\<close>

theorem scalar_metrics:
  assumes "df \<noteq> []"
  shows "total_amount df = (\<Sum>i<length df. amount (df ! i))
       \<and> total_transactions df = length df
       \<and> fraud_transactions df = card {i. i < length df \<and> is_fraud (df ! i)}
       \<and> fraud_amount df = (\<Sum>i \<in> {i. i < length df \<and> is_fraud (df ! i)}. amount (df ! i))
       \<and> fraud_rate df = Fin (real (fraud_transactions df) / real (total_transactions df) * 100)
       \<and> mean_amount df = Fin (total_amount df / real (total_transactions df))"
proof -
  have "total_amount df = (\<Sum>i<length df. amount (df ! i))"
    by (simp add: total_amount_def sum_list_nth)
  moreover have "total_transactions df = length df"
    by (simp add: total_transactions_def)
  moreover have "fraud_transactions df = card {i. i < length df \<and> is_fraud (df ! i)}"
    by (simp add: fraud_transactions_def bool_sum_filter length_filter_conv_card)
  moreover have "fraud_amount df
      = (\<Sum>i \<in> {i. i < length df \<and> is_fraud (df ! i)}. amount (df ! i))"
    by (simp add: fraud_amount_def sum_list_filter_nth)
  moreover from assms have "fraud_rate df
      = Fin (real (fraud_transactions df) / real (total_transactions df) * 100)"
    by (simp add: fraud_rate_def np_true_divide_def total_transactions_def)
  moreover from assms have "mean_amount df
      = Fin (total_amount df / real (total_transactions df))"
    by (simp add: mean_amount_def series_mean_def total_amount_def total_transactions_def)
  ultimately show ?thesis by blast
qed

text \<open>C6, witness: the ledger of the example run.\<close>

theorem scalar_metrics_witness:
  "example_ledger \<noteq> []
   \<and> total_transactions example_ledger = 3
   \<and> fraud_transactions example_ledger = 1
   \<and> total_amount example_ledger = 2723457 / 100
   \<and> fraud_amount example_ledger = 123457 / 100
   \<and> fraud_rate example_ledger = Fin (100 / 3)
   \<and> fraud_rate example_ledger
        = Fin (real (fraud_transactions example_ledger)
                 / real (total_transactions example_ledger) * 100)
   \<and> mean_amount example_ledger
        = Fin (total_amount example_ledger / real (total_transactions example_ledger))"
proof -
  have a: "total_transactions example_ledger = 3"
    by (simp add: total_transactions_def example_ledger_def)
  have b: "fraud_transactions example_ledger = 1"
    by (simp add: fraud_transactions_def bool_sum_def example_ledger_def)
  have c: "total_amount example_ledger = 2723457 / 100"
    by (simp add: total_amount_def example_ledger_def)
  have d: "fraud_amount example_ledger = 123457 / 100"
    by (simp add: fraud_amount_def example_ledger_def)
  from scalar_metrics [OF example_ledger_nonempty] a b c d example_ledger_nonempty
  show ?thesis by simp
qed

text \<open>
  C9. The two histogram inputs partition the ledger: the index labels of the legitimate
  and of the fraudulent collection are disjoint and together are all positions of the
  ledger, no label occurs twice, every entry carries the amount of the record at its
  label, the two sizes add up to the ledger size, and the amounts of the two
  collections together are exactly the amounts of the ledger, with multiplicity.
\<close>

theorem amount_distribution_partition:
  "fst ` set (legitimate_x df) \<inter> fst ` set (fraudulent_x df) = {}
   \<and> fst ` set (legitimate_x df) \<union> fst ` set (fraudulent_x df) = {..<length df}
   \<and> distinct (map fst (legitimate_x df)) \<and> distinct (map fst (fraudulent_x df))
   \<and> (\<forall>(i, a) \<in> set (legitimate_x df) \<union> set (fraudulent_x df). a = amount (df ! i))
   \<and> length (legitimate_x df) + length (fraudulent_x df) = length df
   \<and> mset (map snd (legitimate_x df)) + mset (map snd (fraudulent_x df))
       = mset (map amount df)"
proof -
  have 1: "fst ` set (legitimate_x df) \<inter> fst ` set (fraudulent_x df) = {}"
    by (auto simp: legitimate_x_def fraudulent_x_def set_column_mask)
  have 2: "fst ` set (legitimate_x df) \<union> fst ` set (fraudulent_x df) = {..<length df}"
    by (auto simp: legitimate_x_def fraudulent_x_def set_column_mask image_iff)
  have 3: "distinct (map fst (legitimate_x df))" "distinct (map fst (fraudulent_x df))"
    by (simp_all add: legitimate_x_def fraudulent_x_def distinct_column_mask)
  have 4: "\<forall>(i, a) \<in> set (legitimate_x df) \<union> set (fraudulent_x df). a = amount (df ! i)"
    by (auto simp: legitimate_x_def fraudulent_x_def set_column_mask)
  have l: "map snd (legitimate_x df) = map amount (filter (\<lambda>r. \<not> is_fraud r) df)"
    and f: "map snd (fraudulent_x df) = map amount (filter is_fraud df)"
    by (simp_all only: legitimate_x_def fraudulent_x_def values_column_mask)
  have "length (map snd (legitimate_x df)) + length (map snd (fraudulent_x df)) = length df"
    unfolding l f using sum_length_filter_compl [of is_fraud df] by simp
  then have 5: "length (legitimate_x df) + length (fraudulent_x df) = length df" by simp
  have "mset (filter (\<lambda>r. \<not> is_fraud r) df) + mset (filter is_fraud df) = mset df"
    by (induction df) simp_all
  then have "image_mset amount (mset (filter (\<lambda>r. \<not> is_fraud r) df))
             + image_mset amount (mset (filter is_fraud df)) = image_mset amount (mset df)"
    by (metis image_mset_union)
  then have 6: "mset (map snd (legitimate_x df)) + mset (map snd (fraudulent_x df))
       = mset (map amount df)"
    unfolding l f by simp
  from 1 2 3 4 5 6 show ?thesis by blast
qed

text \<open>C9, witness: the ledger of the example run.\<close>

theorem amount_distribution_partition_witness:
  "legitimate_x example_ledger = [(1, 20000), (2, 6000)]
   \<and> fraudulent_x example_ledger = [(0, 123457 / 100)]
   \<and> fst ` set (legitimate_x example_ledger) \<inter> fst ` set (fraudulent_x example_ledger) = {}
   \<and> length (legitimate_x example_ledger) + length (fraudulent_x example_ledger)
       = length example_ledger"
proof -
  have "legitimate_x example_ledger = [(1, 20000), (2, 6000)]"
    by (simp add: legitimate_x_def column_def boolean_mask_def example_ledger_def)
  moreover have "fraudulent_x example_ledger = [(0, 123457 / 100)]"
    by (simp add: fraudulent_x_def column_def boolean_mask_def example_ledger_def)
  ultimately show ?thesis
    using amount_distribution_partition [of example_ledger] by simp
qed

text \<open>
  C3. With a library that keeps its contract, every record of every generated ledger has
  a non-negative amount and a risk score in \<open>[0, 1]\<close> that is not strictly between 0.6
  and 0.7; the score is at least 0.7 when the record is labelled fraudulent and at most
  0.6 when it is not. The amount and the score are the values after rounding to 2 and
  3 decimals.
\<close>

theorem range_and_label_invariants:
  assumes "np_contract np"
    and "generate_fraud_data np res g now1 now2 n = Inr df"
    and "r \<in> set df"
  shows "0 \<le> amount r
       \<and> 0 \<le> risk_score r \<and> risk_score r \<le> 1
       \<and> \<not> (6 / 10 < risk_score r \<and> risk_score r < 7 / 10)
       \<and> (is_fraud r \<longrightarrow> 7 / 10 \<le> risk_score r)
       \<and> (\<not> is_fraud r \<longrightarrow> risk_score r \<le> 6 / 10)"
proof -
  let ?d = "draw_all np (nat n)"
  from assms(3) obtain i where i: "i < length df" "r = df ! i"
    by (auto simp: in_set_conv_nth)
  from generate_nth [OF assms(2) i(1)] obtain dates where
    row: "df ! i = full_row dates ?d i" by blast
  from generate_length [OF assms(2)] i(1) have len: "i < nat n" by simp
  have "d_amount ?d ! i \<in> set (d_amount ?d)"
    using len by (simp add: draw_all_lengths(1) [OF assms(1)])
  then have "0 < d_amount ?d ! i" by (rule draw_all_amount_pos [OF assms(1)])
  then have amt: "0 \<le> amount r"
    by (simp add: i(2) row full_row_sel round_np_nonneg)
  have "d_high ?d ! i \<in> set (d_high ?d)"
    using len by (simp add: draw_all_lengths(6) [OF assms(1)])
  then have hi: "7 / 10 \<le> d_high ?d ! i \<and> d_high ?d ! i \<le> 1"
    by (rule draw_all_high_range [OF assms(1)])
  have "d_low ?d ! i \<in> set (d_low ?d)"
    using len by (simp add: draw_all_lengths(7) [OF assms(1)])
  then have lo: "0 \<le> d_low ?d ! i \<and> d_low ?d ! i \<le> 6 / 10"
    by (rule draw_all_low_range [OF assms(1)])
  have score: "risk_score r
     = round_np (if is_fraud r then d_high ?d ! i else d_low ?d ! i) 3"
    by (simp add: i(2) row full_row_risk_score np_where_def)
  show ?thesis
  proof (cases "is_fraud r")
    case True
    with score have s: "risk_score r = round_np (d_high ?d ! i) 3" by simp
    from hi have "7 / 10 \<le> risk_score r" "risk_score r \<le> 1"
      unfolding s
      using round_np_3_ge_07 [of "d_high ?d ! i"] round_np_3_le_1 [of "d_high ?d ! i"]
      by blast+
    with amt True show ?thesis by simp
  next
    case False
    with score have s: "risk_score r = round_np (d_low ?d ! i) 3" by simp
    from lo have "0 \<le> risk_score r" "risk_score r \<le> 6 / 10"
      unfolding s
      using round_np_nonneg [of "d_low ?d ! i" 3] round_np_3_le_06 [of "d_low ?d ! i"]
      by blast+
    with amt False show ?thesis by simp
  qed
qed

text \<open>C3, witness: the first record of the example run, which is labelled fraudulent.\<close>

theorem range_and_label_invariants_witness:
  "np_contract (scripted example_script)
   \<and> generate_fraud_data (scripted example_script) Ns [] 0 0 3 = Inr example_ledger
   \<and> example_ledger ! 0 \<in> set example_ledger
   \<and> is_fraud (example_ledger ! 0) \<and> risk_score (example_ledger ! 0) = 955 / 1000
   \<and> 0 \<le> amount (example_ledger ! 0)
   \<and> 7 / 10 \<le> risk_score (example_ledger ! 0) \<and> risk_score (example_ledger ! 0) \<le> 1"
proof -
  have m: "example_ledger ! 0 \<in> set example_ledger"
    by (simp add: example_ledger_def)
  have v: "is_fraud (example_ledger ! 0)" "risk_score (example_ledger ! 0) = 955 / 1000"
    by (simp_all add: example_ledger_def)
  from range_and_label_invariants [OF scripted_contract example_run m] v(1)
  have "0 \<le> amount (example_ledger ! 0) \<and> 7 / 10 \<le> risk_score (example_ledger ! 0)
        \<and> risk_score (example_ledger ! 0) \<le> 1"
    by blast
  with scripted_contract [of example_script] example_run [of "[]"] m v show ?thesis
    by blast
qed

text \<open>
  C2. In every generated ledger the label of record \<open>i\<close> is true exactly when the
  eligibility rule holds for the record (amount above 10000, or merchant UNKNOWN, or
  amount from 5000 to 10000 and country IN or BR) and the \<open>i\<close>-th draw of
  \<^verbatim>\<open>np.random.random(n)\<close> is above 0.3. Of the unit interval the draw comes from, the
  successful part is the interval from 0.3 to 1, of length 0.7. Hence a record that is
  not eligible is never labelled fraudulent.
\<close>

theorem fraud_label_rule:
  assumes "generate_fraud_data np res g now1 now2 n = Inr df" and "i < length df"
  shows "(is_fraud (df ! i)
            \<longleftrightarrow> fraud_conditions (df ! i) \<and> label_draw (d_label (draw_all np (nat n)) ! i))
       \<and> (fraud_conditions (df ! i) \<longleftrightarrow>
            amount (df ! i) > 10000 \<or> merchant (df ! i) = ''UNKNOWN''
            \<or> (5000 \<le> amount (df ! i) \<and> amount (df ! i) \<le> 10000
                \<and> (country (df ! i) = ''IN'' \<or> country (df ! i) = ''BR'')))
       \<and> (label_draw (d_label (draw_all np (nat n)) ! i)
            \<longleftrightarrow> d_label (draw_all np (nat n)) ! i > 3 / 10)
       \<and> {u. 0 \<le> u \<and> u < 1 \<and> label_draw u} = {3 / 10 <..< 1}
       \<and> (\<not> fraud_conditions (df ! i) \<longrightarrow> \<not> is_fraud (df ! i))"
proof -
  from generate_nth [OF assms] obtain dates where
    row: "df ! i = full_row dates (draw_all np (nat n)) i" by blast
  have 1: "is_fraud (df ! i)
            \<longleftrightarrow> fraud_conditions (df ! i) \<and> label_draw (d_label (draw_all np (nat n)) ! i)"
    unfolding row by (rule full_row_is_fraud)
  have 2: "label_draw (d_label (draw_all np (nat n)) ! i)
            \<longleftrightarrow> d_label (draw_all np (nat n)) ! i > 3 / 10"
    by (simp add: label_draw_def)
  from 1 2 fraud_conditions_unfold [of "df ! i"] label_draw_interval show ?thesis
    by blast
qed

text \<open>
  C2, witness: in the example run record 1 is eligible (amount 20000) and not flagged,
  its draw being 0.1; record 2 is not eligible and not flagged; record 0 is flagged.
\<close>

theorem fraud_label_rule_witness:
  "generate_fraud_data (scripted example_script) Ns [] 0 0 3 = Inr example_ledger
   \<and> (1::nat) < length example_ledger
   \<and> d_label (draw_all (scripted example_script) (nat 3)) ! 1 = 1 / 10
   \<and> \<not> label_draw (d_label (draw_all (scripted example_script) (nat 3)) ! 1)
   \<and> fraud_conditions (example_ledger ! 1) \<and> \<not> is_fraud (example_ledger ! 1)
   \<and> \<not> fraud_conditions (example_ledger ! 2) \<and> \<not> is_fraud (example_ledger ! 2)
   \<and> fraud_conditions (example_ledger ! 0) \<and> is_fraud (example_ledger ! 0)"
proof -
  have l: "(1::nat) < length example_ledger" "(2::nat) < length example_ledger"
    "(0::nat) < length example_ledger"
    by (simp_all add: example_ledger_length)
  have d: "d_label (draw_all (scripted example_script) (nat 3)) ! 1 = 1 / 10"
    by (simp add: example_draws)
  have c: "fraud_conditions (example_ledger ! 1)" "\<not> fraud_conditions (example_ledger ! 2)"
    "is_fraud (example_ledger ! 0)"
    by (simp_all add: example_ledger_def fraud_conditions_unfold)
  from fraud_label_rule [OF example_run l(1)] fraud_label_rule [OF example_run l(2)]
    fraud_label_rule [OF example_run l(3)] d c l example_run [of "[]"]
  show ?thesis by (simp add: label_draw_def)
qed

text \<open>
  C1 (amended). For a fixed count, two runs produce ledgers that agree in every field
  other than the timestamp, whatever state the generator was in when each run began
  and whatever the clock showed; a run's outcome does not depend on the earlier state of
  the generator at all, so two runs that read the same two clock values produce the
  same ledger.
\<close>

theorem determinism_up_to_clock:
  "map_sum id (map other_fields) (generate_fraud_data np res g now1 now2 n)
     = map_sum id (map other_fields) (generate_fraud_data np res g' now1' now2' n)
   \<and> generate_fraud_data np res g now1 now2 n = generate_fraud_data np res g' now1 now2 n"
proof (cases "n < 0")
  case True
  then show ?thesis by (simp add: generate_neg)
next
  case False
  then have n: "0 \<le> n" by simp
  obtain ds where ds: "date_range res (now1 - timedelta_days 30) now2 n = Inr ds" "length ds = nat n"
    using date_range_Inr [OF n] by blast
  obtain ds' where ds': "date_range res (now1' - timedelta_days 30) now2' n = Inr ds'"
    "length ds' = nat n"
    using date_range_Inr [OF n] by blast
  let ?d = "draw_all np (nat n)"
  have same: "same_length (nat n) ds ?d = same_length (nat n) ds' ?d"
    by (simp add: same_length_def ds(2) ds'(2))
  have rows: "map other_fields (map (full_row ds ?d) [0..<nat n])
      = map other_fields (map (full_row ds' ?d) [0..<nat n])"
    by (simp add: full_row_other_fields [of ds _ _ ds'])
  have L: "generate_fraud_data np res g now1 now2 n
      = (if same_length (nat n) ds ?d then Inr (map (full_row ds ?d) [0..<nat n])
         else Inl ValueError)"
    by (simp add: generate_fraud_data_def ds(1) Let_def)
  have R: "generate_fraud_data np res g' now1' now2' n
      = (if same_length (nat n) ds ?d then Inr (map (full_row ds' ?d) [0..<nat n])
         else Inl ValueError)"
    by (simp add: generate_fraud_data_def ds'(1) Let_def same)
  have "map_sum id (map other_fields) (generate_fraud_data np res g now1 now2 n)
     = map_sum id (map other_fields) (generate_fraud_data np res g' now1' now2' n)"
    unfolding L R using rows by (cases "same_length (nat n) ds ?d") simp_all
  with generate_ignores_state [of np res g now1 now2 n g'] show ?thesis by blast
qed

text \<open>C1, witness: the example run against a run one microsecond later.\<close>

theorem determinism_up_to_clock_witness:
  "map_sum id (map other_fields) (generate_fraud_data (scripted example_script) Ns [] 0 0 3)
     = map_sum id (map other_fields) (generate_fraud_data (scripted example_script) Ns [7] 1 1 3)
   \<and> map_sum id (map other_fields) (generate_fraud_data (scripted example_script) Ns [] 0 0 3)
     = Inr (map other_fields example_ledger)"
  using determinism_up_to_clock [of "scripted example_script" Ns "[]" 0 0 3 "[7]" 1 1]
  by (simp add: example_run)

text \<open>
  C1, counterexample to the claim as stated: two runs of the same count one microsecond
  apart return different ledgers (they differ in the timestamp field).
\<close>

theorem runs_at_different_times_differ:
  "generate_fraud_data (scripted example_script) Ns [] 0 0 3
     \<noteq> generate_fraud_data (scripted example_script) Ns [] 1 1 3"
proof
  assume "generate_fraud_data (scripted example_script) Ns [] 0 0 3
     = generate_fraud_data (scripted example_script) Ns [] 1 1 3"
  then have eq: "generate_fraud_data (scripted example_script) Ns [] 1 1 3 = Inr example_ledger"
    by (simp add: example_run)
  have "0 < length example_ledger" by (simp add: example_ledger_length)
  from generate_nth [OF eq this] later_dates
  have "date (example_ledger ! 0) = - 2591999999999000"
    by (auto simp: full_row_sel)
  then show False by (simp add: example_ledger_def)
qed

text \<open>
  C10 (amended). For a count \<open>N\<close> from 2 to 1000000000 and two clock readings at most a
  day apart, the second not before the first, the timestamps of a generated ledger span
  the closed window from the first reading less 30 days to the second reading, and both
  ends are exact; the width \<open>W\<close> of the window is 30 days plus the time between the
  two readings; timestamp \<open>i\<close> is a float64 product cut down to a whole tick, and lies
  less than \<open>8 / 5\<close> of a tick before and at most \<open>3 / 5\<close> of a tick after the start plus
  \<open>i * W / (N - 1)\<close>; the timestamps increase strictly in ledger order and no two records
  share one. The steps between them need not be equal.
\<close>

theorem timestamps_spacing:
  assumes "generate_fraud_data np res g now1 now2 n = Inr df"
    and "2 \<le> n" and "n \<le> 1000000000"
    and "now1 \<le> now2" and "now2 - now1 \<le> 86400000000"
  shows "length df = nat n
       \<and> window_width res now1 now2 = per_us res * (2592000000000 + (now2 - now1))
       \<and> date (df ! 0) = window_start res now1
       \<and> date (df ! (nat n - 1)) = Timestamp res now2
       \<and> (\<forall>i < nat n.
             real i * (real_of_int (window_width res now1 now2) / real_of_int (n - 1)) - 8 / 5
               < real_of_int (date (df ! i) - window_start res now1)
           \<and> real_of_int (date (df ! i) - window_start res now1)
               \<le> real i * (real_of_int (window_width res now1 now2) / real_of_int (n - 1))
                   + 3 / 5)
       \<and> (\<forall>i j. i < j \<and> j < nat n \<longrightarrow> date (df ! i) < date (df ! j))
       \<and> distinct (map date df)"
proof -
  from assms(3) have n: "n \<le> 9007199254740992" by simp
  note win = generate_date_window [OF assms(1,2) n assms(4,5)]
  from assms(2) have z: "0 < nat n" by simp
  have len: "length df = nat n" using generate_length [OF assms(1)] by simp
  have first: "date (df ! 0) = window_start res now1" by (rule win(1) [OF z])
  have last: "date (df ! (nat n - 1)) = Timestamp res now2" by (rule win(2) [OF z])
  have near: "real i * (real_of_int (window_width res now1 now2) / real_of_int (n - 1)) - 8 / 5
               < real_of_int (date (df ! i) - window_start res now1)
           \<and> real_of_int (date (df ! i) - window_start res now1)
               \<le> real i * (real_of_int (window_width res now1 now2) / real_of_int (n - 1))
                   + 3 / 5" if "i < nat n" for i
    using win(3) [OF that] win(4) [OF that] by (rule conjI)
  have incr: "date (df ! i) < date (df ! j)" if "i < j" "j < nat n" for i j
    using assms that by (rule generate_date_mono)
  have "distinct (map date df)"
  proof (unfold distinct_conv_nth, intro allI impI)
    fix i j
    assume "i < length (map date df)" "j < length (map date df)" "i \<noteq> j"
    then have ij: "i < nat n" "j < nat n" "i < j \<or> j < i" using len by auto
    then have "date (df ! i) \<noteq> date (df ! j)" using incr [of i j] incr [of j i] by auto
    with ij len show "map date df ! i \<noteq> map date df ! j" by simp
  qed
  with len window_width_eq first last near incr show ?thesis by blast
qed

text \<open>C10, witness: the three timestamps of the example run.\<close>

theorem timestamps_spacing_witness:
  "generate_fraud_data (scripted example_script) Ns [] 0 0 3 = Inr example_ledger
   \<and> (2::int) \<le> 3 \<and> (3::int) \<le> 1000000000 \<and> (0::int) \<le> 0 \<and> (0::int) - 0 \<le> 86400000000
   \<and> map date example_ledger = [- 2592000000000000, - 1296000000000000, 0]
   \<and> length example_ledger = nat 3
   \<and> window_width Ns 0 0 = 2592000000000000
   \<and> date (example_ledger ! 0) = window_start Ns 0
   \<and> date (example_ledger ! (nat 3 - 1)) = Timestamp Ns 0
   \<and> distinct (map date example_ledger)"
proof -
  have "(2::int) \<le> 3" "(3::int) \<le> 1000000000" "(0::int) \<le> 0" "(0::int) - 0 \<le> 86400000000"
    by simp_all
  from timestamps_spacing [OF example_run this] example_run [of "[]"] example_dates_column
  show ?thesis by simp
qed

text \<open>
  C10, counterexample to the claim as stated: with eight records and both clock readings
  equal, the timestamps are not evenly spaced, whether the tick is the nanosecond or
  the microsecond: the two ends are exact and 30 days is not a multiple of 7 ticks, so
  the seven steps are of two lengths.
\<close>

theorem uneven_timestamp_steps:
  "\<not> isl (generate_fraud_data (scripted []) Ns [] 0 0 8)
   \<and> steps (map date (projr (generate_fraud_data (scripted []) Ns [] 0 0 8)))
       = [370285714285714, 370285714285714, 370285714285715, 370285714285714,
          370285714285714, 370285714285715, 370285714285714]
   \<and> \<not> evenly_spaced (map date (projr (generate_fraud_data (scripted []) Ns [] 0 0 8)))
   \<and> \<not> isl (generate_fraud_data (scripted []) Us [] 0 0 8)
   \<and> steps (map date (projr (generate_fraud_data (scripted []) Us [] 0 0 8)))
       = [370285714285, 370285714286, 370285714286, 370285714285,
          370285714286, 370285714286, 370285714286]
   \<and> \<not> evenly_spaced (map date (projr (generate_fraud_data (scripted []) Us [] 0 0 8)))"
proof -
  have n: "(0::int) \<le> 8" by simp
  have "\<exists>dates. date_range Ns (0 - timedelta_days 30) 0 8 = Inr dates
           \<and> length dates = nat 8
           \<and> generate_fraud_data (scripted []) Ns [] 0 0 8
               = Inr (map (full_row dates (draw_all (scripted []) (nat 8))) [0..<nat 8])"
    using scripted_contract n by (rule generate_contract)
  then obtain df where a: "generate_fraud_data (scripted []) Ns [] 0 0 8 = Inr df" by blast
  have "\<exists>dates. date_range Us (0 - timedelta_days 30) 0 8 = Inr dates
           \<and> length dates = nat 8
           \<and> generate_fraud_data (scripted []) Us [] 0 0 8
               = Inr (map (full_row dates (draw_all (scripted []) (nat 8))) [0..<nat 8])"
    using scripted_contract n by (rule generate_contract)
  then obtain df' where b: "generate_fraud_data (scripted []) Us [] 0 0 8 = Inr df'" by blast
  from eight_records_uneven [OF a] eight_records_uneven [OF b]
    eight_timestamps(1) [OF a refl] eight_timestamps(2) [OF b refl]
  show ?thesis by (simp add: a b)
qed

text \<open>
  C7. The daily series has one entry per calendar day on which the ledger has a record,
  the day being the date part of the timestamp whatever the time of day; the entries
  are in strictly ascending order of day; an entry reports the number of records of
  its day, the number of those labelled fraudulent, and the fraud rate, which is the
  second over the first times 100 rounded to 2 decimals, each of the three steps being
  the float64 operation of the program: the rate is the float64 nearest to a whole
  number \<open>k\<close> of hundredths, \<open>k\<close> is within a half (and \<open>1 / 10 ^ 11\<close>) of the exact rate in
  hundredths, and the rate is within 0.005 (and \<open>1 / 10 ^ 12\<close>) of the exact rate; and
  the record counts of all entries add up to the total transaction count. The ledger
  has fewer than \<open>2 ^ 53\<close> records, so that the counts are float64 values.
\<close>

theorem daily_fraud_series:
  assumes "length df < 9007199254740992"
  shows "sorted_wrt (<) (map g_date (daily_fraud res df))
   \<and> set (map g_date (daily_fraud res df)) = (\<lambda>r. dt_date res (date r)) ` set df
   \<and> (\<forall>e \<in> set (daily_fraud res df).
         g_transaction_id e
           = card {i. i < length df \<and> dt_date res (date (df ! i)) = g_date e}
       \<and> g_is_fraud e
           = card {i. i < length df \<and> dt_date res (date (df ! i)) = g_date e
                      \<and> is_fraud (df ! i)}
       \<and> 0 < g_transaction_id e
       \<and> g_is_fraud e \<le> g_transaction_id e
       \<and> g_fraud_rate e
           = Fin (round_float64
                    (float64 (float64 (real (g_is_fraud e) / real (g_transaction_id e)) * 100))
                    2)
       \<and> (\<exists>k. g_fraud_rate e = Fin (float64 (real_of_int k / 100))
              \<and> \<bar>real_of_int k
                   - 10000 * (real (g_is_fraud e) / real (g_transaction_id e))\<bar>
                  \<le> 1 / 2 + 1 / 100000000000
              \<and> \<bar>float64 (real_of_int k / 100)
                   - real (g_is_fraud e) / real (g_transaction_id e) * 100\<bar>
                  \<le> 1 / 200 + 1 / 1000000000000))
   \<and> sum_list (map g_transaction_id (daily_fraud res df)) = total_transactions df
   \<and> (\<forall>t. 86400000000 * per_us res * dt_date res t \<le> t
          \<and> t < 86400000000 * per_us res * (dt_date res t + 1))"
proof -
  have 1: "sorted_wrt (<) (map g_date (daily_fraud res df))"
    by (simp add: daily_fraud_dates strict_sorted_iff)
  have 2: "set (map g_date (daily_fraud res df)) = (\<lambda>r. dt_date res (date r)) ` set df"
    by (simp add: daily_fraud_dates)
  have 3: "g_transaction_id e
           = card {i. i < length df \<and> dt_date res (date (df ! i)) = g_date e}
       \<and> g_is_fraud e
           = card {i. i < length df \<and> dt_date res (date (df ! i)) = g_date e
                      \<and> is_fraud (df ! i)}
       \<and> 0 < g_transaction_id e
       \<and> g_is_fraud e \<le> g_transaction_id e
       \<and> g_fraud_rate e
           = Fin (round_float64
                    (float64 (float64 (real (g_is_fraud e) / real (g_transaction_id e)) * 100))
                    2)
       \<and> (\<exists>k. g_fraud_rate e = Fin (float64 (real_of_int k / 100))
              \<and> \<bar>real_of_int k
                   - 10000 * (real (g_is_fraud e) / real (g_transaction_id e))\<bar>
                  \<le> 1 / 2 + 1 / 100000000000
              \<and> \<bar>float64 (real_of_int k / 100)
                   - real (g_is_fraud e) / real (g_transaction_id e) * 100\<bar>
                  \<le> 1 / 200 + 1 / 1000000000000)"
    if "e \<in> set (daily_fraud res df)" for e
  proof -
    note ent = daily_fraud_entry [OF that]
    from ent obtain r where r: "r \<in> set df" "dt_date res (date r) = g_date e" by auto
    then have "filter (\<lambda>r. dt_date res (date r) = g_date e) df \<noteq> []"
      by (auto simp: filter_empty_conv)
    with ent have pos: "0 < g_transaction_id e" by simp
    from ent have le: "g_is_fraud e \<le> g_transaction_id e"
      by (simp add: length_filter_conj_le)
    from ent have "g_transaction_id e \<le> length df" by simp
    with assms have small: "g_transaction_id e < 9007199254740992" by simp
    note rate = daily_rate [OF le pos small]
    from ent rate(2) have a: "g_fraud_rate e
           = Fin (round_float64
                    (float64 (float64 (real (g_is_fraud e) / real (g_transaction_id e)) * 100))
                    2)"
      by simp
    from rate(3) a have b: "\<exists>k. g_fraud_rate e = Fin (float64 (real_of_int k / 100))
              \<and> \<bar>real_of_int k
                   - 10000 * (real (g_is_fraud e) / real (g_transaction_id e))\<bar>
                  \<le> 1 / 2 + 1 / 100000000000
              \<and> \<bar>float64 (real_of_int k / 100)
                   - real (g_is_fraud e) / real (g_transaction_id e) * 100\<bar>
                  \<le> 1 / 200 + 1 / 1000000000000"
      by (simp only: npfloat.inject)
    from ent have c: "g_transaction_id e
           = card {i. i < length df \<and> dt_date res (date (df ! i)) = g_date e}"
      "g_is_fraud e
           = card {i. i < length df \<and> dt_date res (date (df ! i)) = g_date e
                      \<and> is_fraud (df ! i)}"
      by (simp_all add: length_filter_conv_card)
    from c pos le a b show ?thesis by blast
  qed
  have 4: "sum_list (map g_transaction_id (daily_fraud res df)) = total_transactions df"
    unfolding daily_fraud_counts total_transactions_def by (rule group_sizes_sum)
  from 1 2 3 4 dt_date_bounds show ?thesis by blast
qed

text \<open>
  C7, witness: seven records on three days; the first day holds three records, two of
  them fraudulent and one at a later time of day. Its rate is the float64 nearest to
  66.67: the bound on \<open>k\<close> leaves 6667 as the only whole number of hundredths.
\<close>

theorem daily_fraud_series_witness:
  "length (example_ledger @ example_ledger
             @ [(example_ledger ! 1)\<lparr>date := - 2591999999999995\<rparr>]) < 9007199254740992
   \<and> daily_fraud Ns (example_ledger @ example_ledger
                  @ [(example_ledger ! 1)\<lparr>date := - 2591999999999995\<rparr>])
     = [\<lparr>g_date = - 30, g_transaction_id = 3, g_is_fraud = 2,
           g_fraud_rate = Fin (float64 (6667 / 100))\<rparr>,
        \<lparr>g_date = - 15, g_transaction_id = 2, g_is_fraud = 0, g_fraud_rate = Fin 0\<rparr>,
        \<lparr>g_date = 0, g_transaction_id = 2, g_is_fraud = 0, g_fraud_rate = Fin 0\<rparr>]
   \<and> sum_list (map g_transaction_id
        (daily_fraud Ns (example_ledger @ example_ledger
                        @ [(example_ledger ! 1)\<lparr>date := - 2591999999999995\<rparr>])))
       = total_transactions (example_ledger @ example_ledger
                        @ [(example_ledger ! 1)\<lparr>date := - 2591999999999995\<rparr>])"
proof -
  let ?df = "example_ledger @ example_ledger
                  @ [(example_ledger ! 1)\<lparr>date := - 2591999999999995\<rparr>]"
  let ?r = "round_float64 (float64 (float64 (2 / 3) * 100)) 2"
  let ?e = "\<lparr>g_date = - 30, g_transaction_id = 3, g_is_fraud = 2, g_fraud_rate = Fin ?r\<rparr>"
  have len: "length ?df < 9007199254740992" by (simp add: example_ledger_length)
  have ev: "daily_fraud Ns ?df
     = [?e,
        \<lparr>g_date = - 15, g_transaction_id = 2, g_is_fraud = 0, g_fraud_rate = Fin 0\<rparr>,
        \<lparr>g_date = 0, g_transaction_id = 2, g_is_fraud = 0, g_fraud_rate = Fin 0\<rparr>]"
    by (simp add: daily_fraud_def groupby_date_agg_def example_ledger_def example_days Let_def
          bool_sum_def column_true_divide_def round_float64_def rint_def)
  note series = daily_fraud_series [OF len, of Ns]
  from ev have "?e \<in> set (daily_fraud Ns ?df)" by simp
  with series have "\<exists>k. g_fraud_rate ?e = Fin (float64 (real_of_int k / 100))
              \<and> \<bar>real_of_int k - 10000 * (real (g_is_fraud ?e) / real (g_transaction_id ?e))\<bar>
                  \<le> 1 / 2 + 1 / 100000000000"
    by blast
  then obtain k where k: "?r = float64 (real_of_int k / 100)"
    "\<bar>real_of_int k - 10000 * (2 / 3)\<bar> \<le> 1 / 2 + 1 / 100000000000"
    by auto
  from k(2) have "real_of_int k < 6668" "6666 < real_of_int k" by linarith+
  then have "k < 6668" "6666 < k" by simp_all
  then have "k = 6667" by simp
  with k(1) have "?r = float64 (6667 / 100)" by simp
  with ev series len show ?thesis by simp
qed

text \<open>
  C8 (amended). The ranking \<^verbatim>\<open>df.nlargest(10, 'risk_score')\<close> has \<open>min 10 N\<close> rows, each a
  record of the ledger at its own index label and no label twice; the rows are in
  descending order of risk score, rows of equal score in ledger order; and every score
  in the ranking is at least the score of every record left out. The rows handed to the
  table as \<^verbatim>\<open>data\<close> are the dictionaries of these rows and carry all eight columns of
  the frame; the six fields date, transaction_id, amount, merchant, risk_score and
  is_fraud are the table's \<^verbatim>\<open>columns\<close>, each of them a key of every row.
\<close>

theorem top_risk_ranking:
  "length (nlargest 10 risk_score df) = min 10 (length df)
   \<and> (\<forall>i j. i < j \<and> j < length (nlargest 10 risk_score df) \<longrightarrow>
         risk_score (snd (nlargest 10 risk_score df ! j))
           < risk_score (snd (nlargest 10 risk_score df ! i))
         \<or> (risk_score (snd (nlargest 10 risk_score df ! i))
               = risk_score (snd (nlargest 10 risk_score df ! j))
             \<and> fst (nlargest 10 risk_score df ! i) < fst (nlargest 10 risk_score df ! j)))
   \<and> (\<forall>(i, r) \<in> set (nlargest 10 risk_score df). i < length df \<and> r = df ! i)
   \<and> distinct (map fst (nlargest 10 risk_score df))
   \<and> (\<forall>k < length df. k \<notin> fst ` set (nlargest 10 risk_score df) \<longrightarrow>
         (\<forall>(i, r) \<in> set (nlargest 10 risk_score df). risk_score (df ! k) \<le> risk_score r))
   \<and> table_data df = map (\<lambda>(i, r). to_dict r) (nlargest 10 risk_score df)
   \<and> (\<forall>row \<in> set (table_data df).
         map fst row = frame_columns \<and> set (map snd table_columns) \<subseteq> set (map fst row))
   \<and> map snd table_columns
       = [''date'', ''transaction_id'', ''amount'', ''merchant'', ''risk_score'', ''is_fraud'']
   \<and> map fst table_columns = map snd table_columns"
proof -
  have 1: "length (nlargest 10 risk_score df) = min 10 (length df)"
    by (rule nlargest_length)
  have 2: "\<forall>i j. i < j \<and> j < length (nlargest 10 risk_score df) \<longrightarrow>
         risk_score (snd (nlargest 10 risk_score df ! j))
           < risk_score (snd (nlargest 10 risk_score df ! i))
         \<or> (risk_score (snd (nlargest 10 risk_score df ! i))
               = risk_score (snd (nlargest 10 risk_score df ! j))
             \<and> fst (nlargest 10 risk_score df ! i) < fst (nlargest 10 risk_score df ! j))"
    using nlargest_order [of _ _ 10 risk_score df] by blast
  have 3: "\<forall>(i, r) \<in> set (nlargest 10 risk_score df). i < length df \<and> r = df ! i"
    using nlargest_rows [of _ _ 10 risk_score df] by blast
  have 4: "distinct (map fst (nlargest 10 risk_score df))"
    by (rule nlargest_distinct)
  have 5: "\<forall>k < length df. k \<notin> fst ` set (nlargest 10 risk_score df) \<longrightarrow>
         (\<forall>(i, r) \<in> set (nlargest 10 risk_score df). risk_score (df ! k) \<le> risk_score r)"
    using nlargest_dominates [of _ df 10 risk_score] by blast
  have 6: "table_data df = map (\<lambda>(i, r). to_dict r) (nlargest 10 risk_score df)"
    by (simp add: table_data_def)
  have 7: "\<forall>row \<in> set (table_data df).
         map fst row = frame_columns \<and> set (map snd table_columns) \<subseteq> set (map fst row)"
    using table_data_keys [of _ df] table_columns_subset by auto
  from 1 2 3 4 5 6 7 table_columns_ids show ?thesis by blast
qed

text \<open>
  C8, witness: twelve records, the example ledger four times over. The ranking keeps
  ten of them, ties in ledger order, and leaves out the records 7 and 10.
\<close>

theorem top_risk_ranking_witness:
  "map fst (nlargest 10 risk_score
      (example_ledger @ example_ledger @ example_ledger @ example_ledger))
     = [0, 3, 6, 9, 2, 5, 8, 11, 1, 4]
   \<and> length (example_ledger @ example_ledger @ example_ledger @ example_ledger) = 12
   \<and> length (nlargest 10 risk_score
        (example_ledger @ example_ledger @ example_ledger @ example_ledger)) = 10
   \<and> distinct (map fst (nlargest 10 risk_score
        (example_ledger @ example_ledger @ example_ledger @ example_ledger)))"
  using top_risk_ranking [of "example_ledger @ example_ledger @ example_ledger @ example_ledger"]
    example_twelve_ranking
  by (simp add: example_ledger_length)

text \<open>
  C8, counterexample to the claim as stated: the first row handed to the table for the
  example ledger has all eight keys, among them country and user_id, which are not
  among the six columns of the table.
\<close>

theorem table_rows_carry_all_columns:
  "map fst (hd (table_data example_ledger)) = frame_columns
   \<and> (''country'', Str ''UK'') \<in> set (hd (table_data example_ledger))
   \<and> (''user_id'', Str ''USER1007'') \<in> set (hd (table_data example_ledger))
   \<and> ''country'' \<notin> set (map snd table_columns)
   \<and> ''user_id'' \<notin> set (map snd table_columns)"
proof -
  have "nlargest 10 risk_score example_ledger
      = [(0, example_ledger ! 0), (2, example_ledger ! 2), (1, example_ledger ! 1)]"
    by (simp add: nlargest_def example_ledger_def)
  then have "hd (table_data example_ledger) = to_dict (example_ledger ! 0)"
    by (simp add: table_data_def)
  then show ?thesis
    by (simp add: to_dict_def example_ledger_def frame_columns_def table_columns_def)
qed

end
